theory Spec2Isabelle
  imports Main "HOL-Library.Word" "HOL-Library.FSet"
begin

unbundle bit_operations_syntax

section \<open>Memory-based IPC: the 7-in-8 block encoding\<close>

text \<open>
  The shared buffer of a \<open>memipc_area\<close> is a byte store indexed by address; the C code
  reads and writes it through \<open>unsigned char volatile *\<close> and performs no bounds
  checks of its own, so the store is total.  A pointer is the address it holds.
\<close>

type_synonym u8 = "8 word"
type_synonym u32 = "32 word"
type_synonym mem = "nat \<Rightarrow> u8"

text \<open>The test \<open>(1 & (dst[0] | ... | dst[7])) != 0\<close> of the two writers.\<close>

definition block_not_free :: "mem \<Rightarrow> nat \<Rightarrow> bool" where
  "block_not_free m dst \<longleftrightarrow>
     (1 AND (m dst OR m (dst + 1) OR m (dst + 2) OR m (dst + 3)
             OR m (dst + 4) OR m (dst + 5) OR m (dst + 6) OR m (dst + 7))) \<noteq> 0"

text \<open>The test \<open>(1 & src0 & ... & src7) != 1\<close> of the two readers.\<close>

definition block_not_ready :: "mem \<Rightarrow> nat \<Rightarrow> bool" where
  "block_not_ready m src \<longleftrightarrow>
     (1 AND m src AND m (src + 1) AND m (src + 2) AND m (src + 3)
        AND m (src + 4) AND m (src + 5) AND m (src + 6) AND m (src + 7)) \<noteq> 1"

text \<open>The \<open>Encode\<close> and \<open>Write\<close> steps shared by both writers: seven source bytes
  become eight stored bytes, each with its low bit set.\<close>

definition encode_write :: "mem \<Rightarrow> nat \<Rightarrow> u8 \<Rightarrow> u8 \<Rightarrow> u8 \<Rightarrow> u8 \<Rightarrow> u8 \<Rightarrow> u8 \<Rightarrow> u8 \<Rightarrow> mem" where
  "encode_write m dst src0 src1 src2 src3 src4 src5 src6 =
     m(dst := push_bit 1 src0 OR 1,
       dst + 1 := drop_bit 6 (src0 AND 0x80) OR push_bit 2 src1 OR 1,
       dst + 2 := drop_bit 5 (src1 AND 0xc0) OR push_bit 3 src2 OR 1,
       dst + 3 := drop_bit 4 (src2 AND 0xe0) OR push_bit 4 src3 OR 1,
       dst + 4 := drop_bit 3 (src3 AND 0xf0) OR push_bit 5 src4 OR 1,
       dst + 5 := drop_bit 2 (src4 AND 0xf8) OR push_bit 6 src5 OR 1,
       dst + 6 := drop_bit 1 (src5 AND 0xfc) OR push_bit 7 src6 OR 1,
       dst + 7 := src6 OR 1)"


text \<open>
  \<open>write_encode_bytes\<close>: the block is left alone and \<open>-1\<close> returned when any
  presence bit is set.  Otherwise the first \<open>size\<close> bytes of \<open>src\<close> are copied
  to locals, the rest zeroed, and the block written.  The two \<open>switch\<close> statements
  initialise the locals only for \<open>size \<le> 7\<close>; for a larger \<open>size\<close> the C encodes
  uninitialised locals, which is the result \<open>None\<close> here.
\<close>

definition write_encode_bytes :: "mem \<Rightarrow> nat \<Rightarrow> (nat \<Rightarrow> u8) \<Rightarrow> nat \<Rightarrow> (int \<times> mem) option" where
  "write_encode_bytes m dst src sz =
     (if block_not_free m dst then Some (- 1, m)
      else if 7 < sz then None
      else Some (0, encode_write m dst
             (if 0 < sz then src 0 else 0) (if 1 < sz then src 1 else 0)
             (if 2 < sz then src 2 else 0) (if 3 < sz then src 3 else 0)
             (if 4 < sz then src 4 else 0) (if 5 < sz then src 5 else 0)
             (if 6 < sz then src 6 else 0)))"

text \<open>
  \<open>write_encode_bytes_with_header\<close>: the first five source bytes are the header
  \<open>{t, msize}\<close> (size little-endian), followed by at most two payload bytes.
  For \<open>size > 2\<close> the locals \<open>src5\<close> and \<open>src6\<close> stay uninitialised.
\<close>

definition write_encode_bytes_with_header ::
    "mem \<Rightarrow> nat \<Rightarrow> (nat \<Rightarrow> u8) \<Rightarrow> nat \<Rightarrow> u8 \<Rightarrow> u32 \<Rightarrow> (int \<times> mem) option" where
  "write_encode_bytes_with_header m dst src sz t msize =
     (if block_not_free m dst then Some (- 1, m)
      else if 2 < sz then None
      else Some (0, encode_write m dst
             t
             (ucast (msize AND 0xff))
             (ucast (drop_bit 8 msize AND 0xff))
             (ucast (drop_bit 16 msize AND 0xff))
             (ucast (drop_bit 24 msize AND 0xff))
             (if 0 < sz then src 0 else 0)
             (if 1 < sz then src 1 else 0)))"

text \<open>The seven decoding expressions of the readers, by source byte index.\<close>

definition dec0 :: "mem \<Rightarrow> nat \<Rightarrow> u8" where
  "dec0 m s = drop_bit 1 (m s) OR (push_bit 6 (m (s + 1)) AND 0x80)"
definition dec1 :: "mem \<Rightarrow> nat \<Rightarrow> u8" where
  "dec1 m s = drop_bit 2 (m (s + 1)) OR (push_bit 5 (m (s + 2)) AND 0xc0)"
definition dec2 :: "mem \<Rightarrow> nat \<Rightarrow> u8" where
  "dec2 m s = drop_bit 3 (m (s + 2)) OR (push_bit 4 (m (s + 3)) AND 0xe0)"
definition dec3 :: "mem \<Rightarrow> nat \<Rightarrow> u8" where
  "dec3 m s = drop_bit 4 (m (s + 3)) OR (push_bit 3 (m (s + 4)) AND 0xf0)"
definition dec4 :: "mem \<Rightarrow> nat \<Rightarrow> u8" where
  "dec4 m s = drop_bit 5 (m (s + 4)) OR (push_bit 2 (m (s + 5)) AND 0xf8)"
definition dec5 :: "mem \<Rightarrow> nat \<Rightarrow> u8" where
  "dec5 m s = drop_bit 6 (m (s + 5)) OR (push_bit 1 (m (s + 6)) AND 0xfc)"
definition dec6 :: "mem \<Rightarrow> nat \<Rightarrow> u8" where
  "dec6 m s = drop_bit 7 (m (s + 6)) OR (m (s + 7) AND 0xfe)"

text \<open>
  \<open>read_decode_bytes\<close>: nothing is stored and \<open>-1\<close> returned unless all eight
  presence bits are set.  The \<open>switch\<close> falls through from \<open>case size\<close> down to
  \<open>case 1\<close>, so \<open>dst[0..size-1]\<close> are stored for \<open>1 \<le> size \<le> 7\<close> and nothing for
  any other \<open>size\<close>.  The destination is the caller's buffer, a byte store indexed from
  \<open>req_data\<close>.
\<close>

definition read_decode_bytes :: "mem \<Rightarrow> nat \<Rightarrow> mem \<Rightarrow> nat \<Rightarrow> nat \<Rightarrow> int \<times> mem" where
  "read_decode_bytes out dst m src sz =
     (if block_not_ready m src then (- 1, out)
      else if sz = 0 \<or> 7 < sz then (0, out)
      else
        let o6 = (if 6 < sz then out(dst + 6 := dec6 m src) else out);
            o5 = (if 5 < sz then o6(dst + 5 := dec5 m src) else o6);
            o4 = (if 4 < sz then o5(dst + 4 := dec4 m src) else o5);
            o3 = (if 3 < sz then o4(dst + 3 := dec3 m src) else o4);
            o2 = (if 2 < sz then o3(dst + 2 := dec2 m src) else o3);
            o1 = (if 1 < sz then o2(dst + 1 := dec1 m src) else o2)
        in (0, o1(dst := dec0 m src)))"

text \<open>The 32-bit size field of a header block, reassembled from its four bytes.\<close>

definition decode_msize :: "mem \<Rightarrow> nat \<Rightarrow> u32" where
  "decode_msize m src =
     push_bit 24 (ucast (dec4 m src))
     OR push_bit 16 (ucast (dec3 m src))
     OR push_bit 8 (ucast (dec2 m src))
     OR ucast (dec1 m src)"

text \<open>
  \<open>read_decode_bytes_with_header\<close>: returns the status, the destination, the type
  byte and the 32-bit message size.  On failure \<open>*type\<close> and \<open>*msize\<close> are not
  written, so the caller's previous values come back.
\<close>

definition read_decode_bytes_with_header ::
    "mem \<Rightarrow> nat \<Rightarrow> mem \<Rightarrow> nat \<Rightarrow> nat \<Rightarrow> u8 \<Rightarrow> u32 \<Rightarrow> int \<times> mem \<times> u8 \<times> u32" where
  "read_decode_bytes_with_header out dst m src sz type0 msize0 =
     (if block_not_ready m src then (- 1, out, type0, msize0)
      else
        let o1 = (if sz = 2 then out(dst + 1 := dec6 m src) else out);
            o0 = (if sz = 2 \<or> sz = 1 then o1(dst := dec5 m src) else o1)
        in (0, o0, dec0 m src, decode_msize m src))"

section \<open>Memory-based IPC: requests in a ring\<close>

text \<open>\<open>enum memipc_req_type\<close> and the value each enumerator has as a \<open>char\<close>.\<close>

datatype memipc_req_type =
    MEMIPC_REQ_NONE
  | MEMIPC_REQ_INIT
  | MEMIPC_REQ_START_READY
  | MEMIPC_REQ_START_LAUNCH
  | MEMIPC_REQ_START_LAUNCH_DONE
  | MEMIPC_REQ_START_LAUNCH_FAILURE
  | MEMIPC_REQ_START_CONFIRMED
  | MEMIPC_REQ_TERMINATE
  | MEMIPC_REQ_EXIT_ISOLATION
  | MEMIPC_REQ_EXITING
  | MEMIPC_REQ_LEAVE_ISOLATION
  | MEMIPC_REQ_OK_LEAVE_ISOLATION
  | MEMIPC_REQ_PING
  | MEMIPC_REQ_PONG
  | MEMIPC_REQ_CMD
  | MEMIPC_REQ_PRINT

fun req_type_char :: "memipc_req_type \<Rightarrow> u8" where
  "req_type_char MEMIPC_REQ_NONE = 0"
| "req_type_char MEMIPC_REQ_INIT = 1"
| "req_type_char MEMIPC_REQ_START_READY = 2"
| "req_type_char MEMIPC_REQ_START_LAUNCH = 3"
| "req_type_char MEMIPC_REQ_START_LAUNCH_DONE = 4"
| "req_type_char MEMIPC_REQ_START_LAUNCH_FAILURE = 5"
| "req_type_char MEMIPC_REQ_START_CONFIRMED = 6"
| "req_type_char MEMIPC_REQ_TERMINATE = 7"
| "req_type_char MEMIPC_REQ_EXIT_ISOLATION = 8"
| "req_type_char MEMIPC_REQ_EXITING = 9"
| "req_type_char MEMIPC_REQ_LEAVE_ISOLATION = 10"
| "req_type_char MEMIPC_REQ_OK_LEAVE_ISOLATION = 11"
| "req_type_char MEMIPC_REQ_PING = 12"
| "req_type_char MEMIPC_REQ_PONG = 13"
| "req_type_char MEMIPC_REQ_CMD = 14"
| "req_type_char MEMIPC_REQ_PRINT = 15"

text \<open>
  \<open>struct memipc_area\<close>.  The three pointers are addresses in the shared store; the
  store itself is passed beside the descriptor, because the writer and the reader each
  hold a descriptor of their own over the same bytes (\<open>memipc_area_dup\<close>).  Sizes,
  counts and addresses are natural numbers: descriptors are built by
  \<open>memipc_area_create\<close> with \<open>area \<le> wptr, rptr\<close> and the code only moves a
  pointer forward inside \<open>[area, area + size)\<close>, so no C subtraction below goes
  negative on such a descriptor (\<open>area_ok\<close> below).
\<close>

record memipc_area =
  area :: nat
  wptr :: nat
  rptr :: nat
  size_area :: nat
  inbuffer :: nat
  writer :: nat
  reader :: nat

definition SEVEN :: nat where "SEVEN = 7"
definition EIGHT :: nat where "EIGHT = 8"
definition AREA_SIZE :: nat where "AREA_SIZE = 4096"

text \<open>\<open>sizeof(struct memipc_req_header)\<close>: a packed \<open>char\<close> and \<open>uint32_t\<close>.\<close>

definition HEADER_SIZE :: nat where "HEADER_SIZE = 5"

text \<open>\<open>memipc_area_create\<close> on an existing mapping \<open>ptr + offset\<close>.\<close>

definition memipc_area_create :: "nat \<Rightarrow> nat \<Rightarrow> memipc_area" where
  "memipc_area_create sz p =
     \<lparr>area = p, wptr = p, rptr = p, size_area = sz, inbuffer = 0, writer = 0, reader = 0\<rparr>"

text \<open>
  The first loop of \<open>memipc_add_req\<close>: the writer moves its copy of \<open>rptr\<close> over
  the bytes the reader has cleared, at most \<open>inbuffer\<close> of them.
\<close>

fun add_req_scan :: "mem \<Rightarrow> nat \<Rightarrow> nat \<Rightarrow> nat \<Rightarrow> nat \<Rightarrow> nat \<times> nat" where
  "add_req_scan m a endptr localptr 0 = (localptr, 0)"
| "add_req_scan m a endptr localptr (Suc n) =
     (if m localptr AND 1 = 0
      then add_req_scan m a endptr (if endptr \<le> localptr + 1 then a else localptr + 1) n
      else (localptr, Suc n))"

text \<open>\<open>blocks_count\<close>: \<open>total / SEVEN\<close>, plus one when there is a remainder.\<close>

definition blocks_for :: "nat \<Rightarrow> nat" where
  "blocks_for total_req_size =
     (let blocks_count = total_req_size div SEVEN;
          remainder = total_req_size - blocks_count * SEVEN
      in if remainder \<noteq> 0 then blocks_count + 1 else blocks_count)"

text \<open>
  The body shared by the two writing loops.  \<open>srcoff\<close> is \<open>srcptr - req_data\<close>.
  The request is the byte list \<open>req_data\<close> with \<open>req_size = length req_data\<close>, as
  every caller passes it.  \<open>srcsize\<close> is a \<open>size_t\<close>: a negative difference would
  wrap to a huge value and be cut to \<open>SEVEN\<close>.
\<close>

definition add_req_block ::
    "mem \<Rightarrow> nat \<Rightarrow> memipc_req_type \<Rightarrow> u8 list \<Rightarrow> nat \<Rightarrow> (int \<times> mem) option" where
  "add_req_block m dst req_type req_data srcoff =
     (if SEVEN \<le> srcoff then
        let d = int (length req_data) - (int srcoff - int SEVEN);
            srcsize = (if d < 0 \<or> int SEVEN < d then SEVEN else nat d)
        in write_encode_bytes m dst (\<lambda>k. req_data ! (srcoff - SEVEN + k)) srcsize
      else
        let srcsize = (if length req_data < srcoff then length req_data else srcoff)
        in write_encode_bytes_with_header m dst (\<lambda>k. req_data ! k) srcsize
             (req_type_char req_type) (of_nat (length req_data + HEADER_SIZE)))"

text \<open>
  The order of the block writes of one call: each entry is the address of a block and
  says which of the two writers stored it.
\<close>

datatype block_write = HeaderBlock nat | DataBlock nat

text \<open>
  \<open>for (i = n; i > 0; i --)\<close> over the blocks at \<open>base + (i - 1) * EIGHT\<close>, where the
  source pointer is \<open>req_data + skip * SEVEN + i * SEVEN - sizeof(header)\<close>
  (\<open>skip = blocks_available_1\<close> in the wrapped loop, \<open>0\<close> in the other).  A block that
  is not free ends the whole call with \<open>-1\<close>.  The list collects the block writes in
  the order in which they happen.
\<close>

fun add_req_write :: "nat \<Rightarrow> nat \<Rightarrow> memipc_req_type \<Rightarrow> u8 list \<Rightarrow> nat \<Rightarrow> mem \<Rightarrow> block_write list
                      \<Rightarrow> (int \<times> mem \<times> block_write list) option" where
  "add_req_write base skip req_type req_data 0 m tr = Some (0, m, tr)"
| "add_req_write base skip req_type req_data (Suc j) m tr =
     (let srcoff = skip * SEVEN + Suc j * SEVEN - HEADER_SIZE;
          dst = base + j * EIGHT
      in case add_req_block m dst req_type req_data srcoff of
           None \<Rightarrow> None
         | Some (r, m') \<Rightarrow>
             if r \<noteq> 0 then Some (- 1, m', tr)
             else add_req_write base skip req_type req_data j m'
                    (tr @ [if SEVEN \<le> srcoff then DataBlock dst else HeaderBlock dst]))"

text \<open>
  The start of \<open>memipc_add_req\<close> after the writer check: \<open>area->rptr\<close> and
  \<open>area->inbuffer\<close> are stored back from the scan.
\<close>

definition add_req_refresh :: "mem \<Rightarrow> memipc_area \<Rightarrow> memipc_area" where
  "add_req_refresh m a =
     (case add_req_scan m (area a) (area a + size_area a) (rptr a) (inbuffer a) of
        (localptr, inb) \<Rightarrow> a\<lparr>rptr := localptr, inbuffer := inb\<rparr>)"

text \<open>The free blocks up to the end of the area or up to \<open>rptr\<close>, and those from the
  start of the area up to \<open>rptr\<close>.\<close>

definition blocks_available_1 :: "memipc_area \<Rightarrow> nat" where
  "blocks_available_1 a =
     (if wptr a < rptr a then (rptr a - wptr a) div EIGHT
      else (area a + size_area a - wptr a) div EIGHT)"

definition blocks_available_2 :: "memipc_area \<Rightarrow> nat" where
  "blocks_available_2 a = (if wptr a < rptr a then 0 else (rptr a - area a) div EIGHT)"

definition blocks_available :: "memipc_area \<Rightarrow> nat" where
  "blocks_available a = blocks_available_1 a + blocks_available_2 a"

text \<open>
  \<open>memipc_add_req\<close>, with \<open>memipc_my_pid\<close> of the calling thread as \<open>my_pid\<close>.
  The result is the return value, the store, the descriptor and the write order.
\<close>

definition memipc_add_req_trace ::
    "nat \<Rightarrow> mem \<Rightarrow> memipc_area \<Rightarrow> memipc_req_type \<Rightarrow> u8 list
     \<Rightarrow> (int \<times> mem \<times> memipc_area \<times> block_write list) option" where
  "memipc_add_req_trace my_pid m a req_type req_data =
     (if writer a \<noteq> my_pid then Some (- 1, m, a, [])
      else
        let endptr = area a + size_area a;
            a1 = add_req_refresh m a
        in if inbuffer a1 = size_area a1 then Some (- 1, m, a1, [])
           else
             let total_req_size = length req_data + HEADER_SIZE;
                 blocks_count = blocks_for total_req_size
             in if blocks_available a1 < blocks_count then Some (- 1, m, a1, [])
                else if blocks_available_1 a1 < blocks_count then
                  (let next_wptr = area a1 + (blocks_count - blocks_available_1 a1) * EIGHT
                   in case add_req_write (area a1) (blocks_available_1 a1) req_type req_data
                             (blocks_count - blocks_available_1 a1) m [] of
                        None \<Rightarrow> None
                      | Some (r, m1, tr1) \<Rightarrow>
                          if r \<noteq> 0 then Some (- 1, m1, a1, tr1)
                          else
                            (case add_req_write (wptr a1) 0 req_type req_data
                                    (blocks_available_1 a1) m1 tr1 of
                               None \<Rightarrow> None
                             | Some (r2, m2, tr2) \<Rightarrow>
                                 if r2 \<noteq> 0 then Some (- 1, m2, a1, tr2)
                                 else Some (0, m2,
                                        a1\<lparr>inbuffer := inbuffer a1 + blocks_count * EIGHT,
                                           wptr := next_wptr\<rparr>, tr2)))
                else
                  (let next_wptr0 = wptr a1 + blocks_count * EIGHT;
                       next_wptr = (if endptr \<le> next_wptr0 then area a1 else next_wptr0)
                   in case add_req_write (wptr a1) 0 req_type req_data blocks_count m [] of
                        None \<Rightarrow> None
                      | Some (r, m1, tr1) \<Rightarrow>
                          if r \<noteq> 0 then Some (- 1, m1, a1, tr1)
                          else Some (0, m1,
                                 a1\<lparr>inbuffer := inbuffer a1 + blocks_count * EIGHT,
                                    wptr := next_wptr\<rparr>, tr1)))"

definition memipc_add_req ::
    "nat \<Rightarrow> mem \<Rightarrow> memipc_area \<Rightarrow> memipc_req_type \<Rightarrow> u8 list
     \<Rightarrow> (int \<times> mem \<times> memipc_area) option" where
  "memipc_add_req my_pid m a req_type req_data =
     map_option (\<lambda>(r, m', a', tr). (r, m', a'))
       (memipc_add_req_trace my_pid m a req_type req_data)"

text \<open>
  A descriptor as the code builds and keeps it: the pointers lie inside the area.  On
  such a descriptor the pointer differences of the C code are not negative.
\<close>

definition area_ok :: "memipc_area \<Rightarrow> bool" where
  "area_ok a \<longleftrightarrow>
     area a \<le> wptr a \<and> wptr a < area a + size_area a \<and>
     area a \<le> rptr a \<and> rptr a < area a + size_area a"

text \<open>
  The first loop of \<open>memipc_get_req\<close>: the reader moves its copy of \<open>wptr\<close> over
  the bytes that carry a presence bit, until \<open>inbuffer\<close> reaches the size of the area.
\<close>

function get_req_scan :: "mem \<Rightarrow> nat \<Rightarrow> nat \<Rightarrow> nat \<Rightarrow> nat \<Rightarrow> nat \<Rightarrow> nat \<times> nat" where
  "get_req_scan m a endptr sz localptr inb =
     (if m localptr AND 1 = 1 \<and> inb < sz
      then get_req_scan m a endptr sz (if endptr \<le> localptr + 1 then a else localptr + 1) (inb + 1)
      else (localptr, inb))"
  by pat_completeness auto
termination
  by (relation "measure (\<lambda>(m, a, endptr, sz, localptr, inb). sz - inb)") auto

declare get_req_scan.simps [simp del]

text \<open>
  The start of \<open>memipc_get_req\<close> after the reader check: \<open>area->wptr\<close> and
  \<open>area->inbuffer\<close> are stored back from the scan.
\<close>

definition get_req_refresh :: "mem \<Rightarrow> memipc_area \<Rightarrow> memipc_area" where
  "get_req_refresh m a =
     (case get_req_scan m (area a) (area a + size_area a) (size_area a) (wptr a) (inbuffer a) of
        (localptr, inb) \<Rightarrow> a\<lparr>wptr := localptr, inbuffer := inb\<rparr>)"

text \<open>\<open>memipc_clearmem\<close>: \<open>size\<close> single stores of zero, upwards from \<open>p\<close>.\<close>

fun memipc_clearmem :: "mem \<Rightarrow> nat \<Rightarrow> nat \<Rightarrow> mem" where
  "memipc_clearmem m p 0 = m"
| "memipc_clearmem m p (Suc n) = memipc_clearmem (m(p := 0)) (p + 1) n"

text \<open>
  \<open>dstsize\<close> of the block with index \<open>i\<close>: \<open>total_req_size - i * SEVEN\<close> cut to
  \<open>SEVEN\<close>; as a \<open>size_t\<close> a negative difference is huge and cut as well.
\<close>

definition get_req_dstsize :: "nat \<Rightarrow> nat \<Rightarrow> nat" where
  "get_req_dstsize total_req_size i =
     (if total_req_size < i * SEVEN \<or> SEVEN < total_req_size - i * SEVEN then SEVEN
      else total_req_size - i * SEVEN)"

text \<open>
  \<open>for (i = i0; i < n; i++)\<close> over the blocks at \<open>base + i * EIGHT\<close>, the block with
  index \<open>skip + i\<close> of the message (\<open>skip = 0\<close> before the wrap-around,
  \<open>blocks_count_1\<close> after it).  Returns the status, the destination and \<open>dstptr\<close>.
\<close>

function get_req_read ::
    "mem \<Rightarrow> nat \<Rightarrow> nat \<Rightarrow> nat \<Rightarrow> nat \<Rightarrow> nat \<Rightarrow> mem \<Rightarrow> nat \<Rightarrow> int \<times> mem \<times> nat" where
  "get_req_read m base skip total_req_size n i out dstptr =
     (if i < n then
        let dstsize = get_req_dstsize total_req_size (skip + i)
        in case read_decode_bytes out dstptr m (base + i * EIGHT) dstsize of
             (r, out') \<Rightarrow>
               if r \<noteq> 0 then (- 1, out', dstptr)
               else get_req_read m base skip total_req_size n (i + 1) out' (dstptr + dstsize)
      else (0, out, dstptr))"
  by pat_completeness auto
termination
  by (relation "measure (\<lambda>(m, base, skip, total_req_size, n, i, out, dstptr). n - i)") auto

declare get_req_read.simps [simp del]

text \<open>
  What \<open>memipc_get_req\<close> leaves behind: the return value, the shared store, the
  reader's descriptor, and the three results passed by pointer.  \<open>res_type\<close> is the
  \<open>char\<close> stored through \<open>req_type\<close>, or \<open>None\<close> when the call does not store
  there; \<open>res_size\<close> is \<open>*req_size\<close> and \<open>res_data\<close> the bytes at \<open>req_data\<close>.
\<close>

record get_result =
  res_ret :: int
  res_mem :: mem
  res_area :: memipc_area
  res_type :: "u8 option"
  res_size :: int
  res_data :: mem

text \<open>
  \<open>memipc_get_req\<close>.  \<open>cap\<close> is \<open>*req_size\<close> on entry.  The comparison with the
  capacity is made in \<open>size_t\<close>, so \<open>cap + sizeof(header)\<close> wraps at \<open>2 ^ 64\<close>.
  The update of the thread-local \<open>memipc_check_newdata_ptr\<close> at the end of the C
  function concerns the calling thread only and is not part of the result.
  \<open>get_req_body\<close> is the function from the test \<open>area->inbuffer < EIGHT\<close> on,
  run on the descriptor \<open>a1\<close> that the scan has stored; \<open>get_req_single\<close> and
  \<open>get_req_multi\<close> are the two branches of \<open>if (total_req_size <= SEVEN)\<close>.
\<close>

definition get_req_single :: "mem \<Rightarrow> memipc_area \<Rightarrow> u8 \<Rightarrow> int \<Rightarrow> mem \<Rightarrow> get_result" where
  "get_req_single m a1 l_req_type new_size out0 =
     (let endptr = area a1 + size_area a1;
          m1 = memipc_clearmem m (rptr a1) EIGHT;
          rp = rptr a1 + EIGHT;
          rp' = (if endptr \<le> rp then area a1 else rp)
      in \<lparr>res_ret = 0, res_mem = m1,
           res_area = a1\<lparr>rptr := rp', inbuffer := inbuffer a1 - EIGHT\<rparr>,
           res_type = Some l_req_type, res_size = new_size, res_data = out0\<rparr>)"

definition get_req_multi :: "mem \<Rightarrow> memipc_area \<Rightarrow> u8 \<Rightarrow> nat \<Rightarrow> int \<Rightarrow> mem \<Rightarrow> get_result" where
  "get_req_multi m a1 l_req_type total_req_size new_size out0 =
     (let endptr = area a1 + size_area a1;
          blocks_count = blocks_for total_req_size
      in if inbuffer a1 < blocks_count * EIGHT
         then \<lparr>res_ret = - 1, res_mem = m, res_area = a1,
               res_type = Some l_req_type, res_size = new_size, res_data = out0\<rparr>
         else
           let avail_1 = (endptr - rptr a1) div EIGHT;
               blocks_count_1 = (if blocks_count \<le> avail_1 then blocks_count else avail_1);
               blocks_count_2 = (if blocks_count \<le> avail_1 then 0 else blocks_count - avail_1)
           in case get_req_read m (rptr a1) 0 total_req_size
                     blocks_count_1 1 out0 (SEVEN - HEADER_SIZE) of
                (r1, out1, dstptr1) \<Rightarrow>
                  if r1 \<noteq> 0
                  then \<lparr>res_ret = - 1, res_mem = m, res_area = a1,
                        res_type = Some l_req_type, res_size = new_size, res_data = out1\<rparr>
                  else
                    let curr0 = rptr a1 + blocks_count_1 * EIGHT
                    in if endptr \<le> curr0 then
                         (if 0 < blocks_count_2 then
                            (case get_req_read m (area a1) blocks_count_1
                                    total_req_size blocks_count_2 0 out1 dstptr1 of
                               (r2, out2, dstptr2) \<Rightarrow>
                                 if r2 \<noteq> 0
                                 then \<lparr>res_ret = - 1, res_mem = m, res_area = a1,
                                       res_type = Some l_req_type,
                                       res_size = new_size, res_data = out2\<rparr>
                                 else
                                   let m1 = memipc_clearmem m (area a1) (blocks_count_2 * EIGHT);
                                       m2 = memipc_clearmem m1 (rptr a1) (blocks_count_1 * EIGHT)
                                   in \<lparr>res_ret = 0, res_mem = m2,
                                        res_area = a1\<lparr>rptr := area a1 + blocks_count_2 * EIGHT,
                                          inbuffer := inbuffer a1 - blocks_count * EIGHT\<rparr>,
                                        res_type = Some l_req_type,
                                        res_size = new_size, res_data = out2\<rparr>)
                          else
                            \<lparr>res_ret = 0,
                             res_mem = memipc_clearmem m (rptr a1) (blocks_count_1 * EIGHT),
                             res_area = a1\<lparr>rptr := area a1,
                               inbuffer := inbuffer a1 - blocks_count * EIGHT\<rparr>,
                             res_type = Some l_req_type,
                             res_size = new_size, res_data = out1\<rparr>)
                       else
                         \<lparr>res_ret = 0,
                          res_mem = memipc_clearmem m (rptr a1) (blocks_count_1 * EIGHT),
                          res_area = a1\<lparr>rptr := curr0,
                            inbuffer := inbuffer a1 - blocks_count * EIGHT\<rparr>,
                          res_type = Some l_req_type,
                          res_size = new_size, res_data = out1\<rparr>)"

definition get_req_body :: "mem \<Rightarrow> memipc_area \<Rightarrow> int \<Rightarrow> mem \<Rightarrow> get_result" where
  "get_req_body m a1 cap req_data =
     (if inbuffer a1 < EIGHT
      then \<lparr>res_ret = - 1, res_mem = m, res_area = a1, res_type = None,
            res_size = cap, res_data = req_data\<rparr>
      else
        case read_decode_bytes_with_header req_data 0 m (rptr a1)
               (SEVEN - HEADER_SIZE) 0 0 of
          (r, out0, l_req_type, l_req_size) \<Rightarrow>
            if r \<noteq> 0
            then \<lparr>res_ret = - 1, res_mem = m, res_area = a1, res_type = None,
                  res_size = cap, res_data = req_data\<rparr>
            else
              let total_req_size = unat l_req_size
              in if nat ((cap + int HEADER_SIZE) mod 2 ^ 64) < total_req_size
                 then \<lparr>res_ret = - 2, res_mem = m, res_area = a1, res_type = None,
                       res_size = cap, res_data = out0\<rparr>
                 else
                   let new_size = int total_req_size - int HEADER_SIZE
                   in if total_req_size \<le> SEVEN
                      then get_req_single m a1 l_req_type new_size out0
                      else get_req_multi m a1 l_req_type total_req_size new_size out0)"

definition memipc_get_req :: "nat \<Rightarrow> mem \<Rightarrow> memipc_area \<Rightarrow> int \<Rightarrow> mem \<Rightarrow> get_result" where
  "memipc_get_req my_pid m a cap req_data =
     (if reader a \<noteq> my_pid
      then \<lparr>res_ret = - 1, res_mem = m, res_area = a, res_type = None,
            res_size = cap, res_data = req_data\<rparr>
      else get_req_body m (get_req_refresh m a) cap req_data)"

text \<open>
  Two concrete rings for the examples below: a store in which every byte is zero, and a
  writer's descriptor of a 16-byte area that still counts one block as unread.
\<close>

definition zero_mem :: mem where
  "zero_mem = (\<lambda>_. 0)"

definition ring16 :: memipc_area where
  "ring16 = \<lparr>area = 0, wptr = 8, rptr = 0, size_area = 16, inbuffer = 8, writer = 1, reader = 2\<rparr>"

definition ring32 :: memipc_area where
  "ring32 = \<lparr>area = 0, wptr = 0, rptr = 0, size_area = 32, inbuffer = 0, writer = 1, reader = 2\<rparr>"

text \<open>The return value and the write order of a call of \<open>memipc_add_req\<close>.\<close>

definition add_req_status :: "(int \<times> mem \<times> memipc_area \<times> block_write list) option \<Rightarrow> int option" where
  "add_req_status r = map_option fst r"

definition add_req_order ::
    "(int \<times> mem \<times> memipc_area \<times> block_write list) option \<Rightarrow> block_write list option" where
  "add_req_order r = map_option (snd \<circ> snd \<circ> snd) r"

text \<open>
  A 32-byte ring whose reader and writer both stand at offset 24, a 16-byte payload, and
  the store after the writer has enqueued that payload there (three blocks, two of them
  wrapped around to the start of the area).
\<close>

definition ring32w :: memipc_area where
  "ring32w = \<lparr>area = 0, wptr = 24, rptr = 24, size_area = 32, inbuffer = 0, writer = 1, reader = 2\<rparr>"

definition payload16 :: "u8 list" where
  "payload16 = [1, 2, 3, 4, 5, 6, 7, 8, 9, 10, 11, 12, 13, 14, 15, 16]"

definition put_mem :: mem where
  "put_mem = (case memipc_add_req 1 zero_mem ring32w MEMIPC_REQ_PRINT payload16 of
                Some (r, m, a) \<Rightarrow> m
              | None \<Rightarrow> zero_mem)"

section \<open>Notions used to state the round trip\<close>

text \<open>
  The bytes of a message as the ring carries them: the type, the total size as four
  little-endian bytes, then the payload.  \<open>grp bs j k\<close> is byte \<open>k\<close> of the \<open>j\<close>-th
  group of seven, zero past the end.  A block holds a group when it is ready for the
  reader and its seven decoded bytes are those of the group.
\<close>

definition size_word :: "u8 list \<Rightarrow> u32" where
  "size_word d = of_nat (length d + HEADER_SIZE)"

definition msg_header :: "memipc_req_type \<Rightarrow> u8 list \<Rightarrow> u8 list" where
  "msg_header t d =
     [req_type_char t, ucast (size_word d AND 0xff), ucast (drop_bit 8 (size_word d) AND 0xff),
      ucast (drop_bit 16 (size_word d) AND 0xff), ucast (drop_bit 24 (size_word d) AND 0xff)]"

definition msg_bytes :: "memipc_req_type \<Rightarrow> u8 list \<Rightarrow> u8 list" where
  "msg_bytes t d = msg_header t d @ d"

definition grp :: "u8 list \<Rightarrow> nat \<Rightarrow> nat \<Rightarrow> u8" where
  "grp bs j k = (if j * 7 + k < length bs then bs ! (j * 7 + k) else 0)"

definition block_holds :: "mem \<Rightarrow> nat \<Rightarrow> (nat \<Rightarrow> u8) \<Rightarrow> bool" where
  "block_holds m p g \<longleftrightarrow>
     \<not> block_not_ready m p \<and> dec0 m p = g 0 \<and> dec1 m p = g 1 \<and> dec2 m p = g 2
     \<and> dec3 m p = g 3 \<and> dec4 m p = g 4 \<and> dec5 m p = g 5 \<and> dec6 m p = g 6"

text \<open>
  A writer's descriptor whose count agrees with its pointers: \<open>inbuffer\<close> is the number of
  bytes from \<open>rptr\<close> forward to \<open>wptr\<close>, around the end of the area when \<open>wptr\<close> is
  behind, and with equal pointers the ring is either empty or full.  The area is a whole
  number of blocks and \<open>wptr\<close> is on a block boundary.  \<open>free_blocks\<close> is the number of
  whole blocks among the bytes that are not counted in \<open>inbuffer\<close>: the blocks that are
  free between the write pointer and the read pointer, in both regions together.
\<close>

definition ring_consistent :: "memipc_area \<Rightarrow> bool" where
  "ring_consistent a \<longleftrightarrow>
     area_ok a \<and> EIGHT dvd size_area a \<and> EIGHT dvd (wptr a - area a) \<and>
     (rptr a < wptr a \<longrightarrow> inbuffer a = wptr a - rptr a) \<and>
     (wptr a < rptr a \<longrightarrow> inbuffer a = size_area a - (rptr a - wptr a)) \<and>
     (wptr a = rptr a \<longrightarrow> inbuffer a = 0 \<or> inbuffer a = size_area a)"

definition free_blocks :: "memipc_area \<Rightarrow> nat" where
  "free_blocks a = (size_area a - inbuffer a) div EIGHT"

text \<open>
  Further rings for the examples: a full ring of two blocks over a store in which every
  byte carries its presence bit, and a ring of four blocks in which the block at 16 is
  unread and the write pointer stands at the last block, so that a request of three blocks
  wraps around.
\<close>

definition ones_mem :: mem where
  "ones_mem = (\<lambda>_. 1)"

definition full16 :: memipc_area where
  "full16 = \<lparr>area = 0, wptr = 0, rptr = 0, size_area = 16, inbuffer = 16, writer = 1, reader = 2\<rparr>"

definition wrap_mem :: mem where
  "wrap_mem = (\<lambda>p. if 16 \<le> p \<and> p < 24 then 1 else 0)"

definition ring32_wrap :: memipc_area where
  "ring32_wrap = \<lparr>area = 0, wptr = 24, rptr = 16, size_area = 32, inbuffer = 8, writer = 1, reader = 2\<rparr>"

section \<open>CPU sets\<close>

text \<open>
  A \<open>cpu_set_t\<close> is a bitmap of \<open>CPU_SETSIZE\<close> bits; it is modelled by the finite set
  of the CPU numbers whose bit is set.  \<open>CPU_SET\<close> and \<open>CPU_ISSET\<close> take an
  \<open>int\<close> that the macros convert to \<open>size_t\<close>: a negative number or one not below
  \<open>CPU_SETSIZE\<close> names no bit, \<open>CPU_SET\<close> then changes nothing and \<open>CPU_ISSET\<close>
  is false.
\<close>

type_synonym cpu_set_t = "nat fset"

definition CPU_SETSIZE :: nat where "CPU_SETSIZE = 1024"

definition CPU_ZERO :: cpu_set_t where
  "CPU_ZERO = {||}"

definition CPU_SET :: "int \<Rightarrow> cpu_set_t \<Rightarrow> cpu_set_t" where
  "CPU_SET c s = (if 0 \<le> c \<and> nat c < CPU_SETSIZE then finsert (nat c) s else s)"

definition CPU_CLR :: "int \<Rightarrow> cpu_set_t \<Rightarrow> cpu_set_t" where
  "CPU_CLR c s = (if 0 \<le> c \<and> nat c < CPU_SETSIZE then s |-| {|nat c|} else s)"

definition CPU_ISSET :: "int \<Rightarrow> cpu_set_t \<Rightarrow> bool" where
  "CPU_ISSET c s \<longleftrightarrow> 0 \<le> c \<and> nat c < CPU_SETSIZE \<and> nat c |\<in>| s"

definition CPU_COUNT :: "cpu_set_t \<Rightarrow> nat" where
  "CPU_COUNT s = fcard s"

definition CPU_AND :: "cpu_set_t \<Rightarrow> cpu_set_t \<Rightarrow> cpu_set_t" where
  "CPU_AND s1 s2 = s1 |\<inter>| s2"

definition CPU_OR :: "cpu_set_t \<Rightarrow> cpu_set_t \<Rightarrow> cpu_set_t" where
  "CPU_OR s1 s2 = s1 |\<union>| s2"

definition CPU_XOR :: "cpu_set_t \<Rightarrow> cpu_set_t \<Rightarrow> cpu_set_t" where
  "CPU_XOR s1 s2 = (s1 |-| s2) |\<union>| (s2 |-| s1)"

section \<open>Managed threads and the manager's state machine\<close>

datatype memipc_thread_state =
    MEMIPC_STATE_OFF
  | MEMIPC_STATE_STARTED
  | MEMIPC_STATE_READY
  | MEMIPC_STATE_LAUNCHING
  | MEMIPC_STATE_LAUNCHED
  | MEMIPC_STATE_RUNNING
  | MEMIPC_STATE_TMP_EXITING_ISOLATION
  | MEMIPC_STATE_EXITING_ISOLATION
  | MEMIPC_STATE_LOST_ISOLATION

datatype isol_timer_type =
    ISOL_TIMER_HRTIMER
  | ISOL_TIMER_CPUTIMER
  | ISOL_TIMER_BTICKDEV
  | ISOL_TIMER_CPUTICKDEV

text \<open>\<open>int64_t\<close> values are 64-bit words, read as signed where the code compares them.\<close>

type_synonym s64 = "64 word"

definition KTIME_MAX :: s64 where
  "KTIME_MAX = 0x7FFFFFFFFFFFFFFF"

record isol_linux_timer =
  timer_type :: isol_timer_type
  last_updated :: s64
  expires :: s64

text \<open>
  \<open>struct memipc_thread_params\<close>, with the fields the manager's side works on.
  \<open>m_memipc_mosi\<close> is the manager's descriptor of the manager-to-worker ring and
  \<open>mosi_mem\<close> the shared bytes it points into.  \<open>isol_exit_time\<close> is the \<open>tv_sec\<close>
  of the \<open>timespec\<close>, the only part the code reads.  \<open>counter_ptr\<close> is \<open>None\<close>
  for \<open>NULL\<close> and otherwise holds the counter it points to; \<open>foreign_desc\<close> is the
  index of the entry of the process table it points to.
\<close>

record memipc_thread_params =
  index :: int
  cpu :: int
  thread_id :: nat
  pid :: int
  tid :: int
  claim_counter :: int
  isolated :: int
  state :: memipc_thread_state
  exit_request :: int
  isol_exit_time :: int
  m_memipc_mosi :: memipc_area
  mosi_mem :: mem
  memipc_check_signal_ptr :: "nat option"
  counter_ptr :: "32 word option"
  foreign_desc :: "nat option"
  timers :: "isol_linux_timer list"
  lasttimer :: s64
  updatetimer :: s64

definition global_isolated_threads_start_timeout :: int where
  "global_isolated_threads_start_timeout = 20"

definition global_isolated_threads_restart_delay :: int where
  "global_isolated_threads_restart_delay = 3"

text \<open>
  The manager's globals that \<open>memipc_isolation_process_ready_launch\<close> reads or
  writes: the thread table, \<open>_global_running_cpuset\<close>, the start-timeout pair, the
  static \<open>last_thread_scan\<close>, and \<open>memipc_my_pid\<close> of the manager thread.
\<close>

record manager =
  threads :: "memipc_thread_params list"
  running_cpuset :: cpu_set_t
  timeout_started :: int
  start_time :: int
  last_thread_scan :: int
  memipc_my_pid :: nat

text \<open>
  \<open>memipc_add_req(thread->m_memipc_mosi, req, 0, NULL)\<close> followed, when it returns
  \<open>0\<close>, by \<open>(*counter_ptr)++\<close> for a non-null \<open>counter_ptr\<close>.  The result is
  the return value and the thread.  \<open>memipc_add_req\<close> always returns (lemma
  \<open>memipc_add_req_returns\<close> below), so the \<open>None\<close> branch is never taken.
\<close>

definition send_req :: "nat \<Rightarrow> memipc_thread_params \<Rightarrow> memipc_req_type \<Rightarrow> int \<times> memipc_thread_params" where
  "send_req me th req =
     (case memipc_add_req me (mosi_mem th) (m_memipc_mosi th) req [] of
        None \<Rightarrow> (- 1, th)
      | Some (r, m', a') \<Rightarrow>
          if r = 0
          then (0, th\<lparr>mosi_mem := m', m_memipc_mosi := a',
                       counter_ptr := map_option (\<lambda>c. c + 1) (counter_ptr th)\<rparr>)
          else (r, th\<lparr>mosi_mem := m', m_memipc_mosi := a'\<rparr>))"

text \<open>
  The start of the loop body: a pending exit request is sent as \<open>MEMIPC_REQ_TERMINATE\<close>
  and cleared once the ring has taken it.  The list holds the request types enqueued.
\<close>

definition exit_request_step :: "nat \<Rightarrow> memipc_thread_params \<Rightarrow> memipc_thread_params \<times> memipc_req_type list" where
  "exit_request_step me th =
     (if exit_request th \<noteq> 0 then
        (case send_req me th MEMIPC_REQ_TERMINATE of
           (r, th') \<Rightarrow> if r = 0 then (th'\<lparr>exit_request := 0\<rparr>, [MEMIPC_REQ_TERMINATE])
                       else (th', []))
      else (th, []))"

text \<open>
  The \<open>switch (threads[i].state)\<close> of the loop body.  \<open>ts\<close> is the \<open>tv_sec\<close> that
  \<open>clock_gettime(CLOCK_MONOTONIC)\<close> gives while this thread is processed.  The result
  is the thread, the request types enqueued, and whether \<open>show_running_threads_flag\<close>
  was set.  The value of \<open>remaining_nsec_before_expiration\<close> only selects a debugging
  message and is left out.
\<close>

definition state_step ::
    "nat \<Rightarrow> cpu_set_t \<Rightarrow> cpu_set_t \<Rightarrow> int \<Rightarrow> memipc_thread_params
     \<Rightarrow> memipc_thread_params \<times> memipc_req_type list \<times> bool" where
  "state_step me timers_cpuset running ts th =
     (case state th of
        MEMIPC_STATE_TMP_EXITING_ISOLATION \<Rightarrow>
          if ts - isol_exit_time th > global_isolated_threads_restart_delay then
            (case send_req me th MEMIPC_REQ_START_LAUNCH of
               (r, th') \<Rightarrow>
                 if r = 0 then (th'\<lparr>state := MEMIPC_STATE_LAUNCHING\<rparr>, [MEMIPC_REQ_START_LAUNCH], False)
                 else (th', [], False))
          else (th, [], False)
      | MEMIPC_STATE_READY \<Rightarrow>
          (case send_req me th MEMIPC_REQ_START_LAUNCH of
             (r, th') \<Rightarrow>
               if r = 0 then (th'\<lparr>state := MEMIPC_STATE_LAUNCHING\<rparr>, [MEMIPC_REQ_START_LAUNCH], False)
               else (th', [], False))
      | MEMIPC_STATE_LOST_ISOLATION \<Rightarrow>
          (case send_req me th MEMIPC_REQ_START_LAUNCH of
             (r, th') \<Rightarrow>
               if r = 0 then (th'\<lparr>state := MEMIPC_STATE_LAUNCHING\<rparr>, [MEMIPC_REQ_START_LAUNCH], False)
               else (th', [], False))
      | MEMIPC_STATE_LAUNCHED \<Rightarrow>
          if CPU_COUNT (CPU_AND timers_cpuset running) = 0 then
            (case send_req me th MEMIPC_REQ_START_CONFIRMED of
               (r, th') \<Rightarrow>
                 if r = 0 then (th'\<lparr>state := MEMIPC_STATE_RUNNING\<rparr>, [MEMIPC_REQ_START_CONFIRMED], False)
                 else (th', [], False))
          else if CPU_ISSET (cpu th) timers_cpuset then
            (case send_req me th MEMIPC_REQ_EXIT_ISOLATION of
               (r, th') \<Rightarrow>
                 if r = 0
                 then (th'\<lparr>state := MEMIPC_STATE_TMP_EXITING_ISOLATION, isol_exit_time := ts\<rparr>,
                       [MEMIPC_REQ_EXIT_ISOLATION], True)
                 else (th', [], True))
          else (th, [], True)
      | _ \<Rightarrow> (th, [], False))"

text \<open>One iteration of the loop \<open>Should issue the request to launch\<close>.\<close>

definition thread_step ::
    "nat \<Rightarrow> cpu_set_t \<Rightarrow> cpu_set_t \<Rightarrow> int \<Rightarrow> memipc_thread_params
     \<Rightarrow> memipc_thread_params \<times> memipc_req_type list \<times> bool" where
  "thread_step me timers_cpuset running ts th =
     (case exit_request_step me th of
        (th1, sent1) \<Rightarrow>
          (case state_step me timers_cpuset running ts th1 of
             (th2, sent2, flag) \<Rightarrow> (th2, sent1 @ sent2, flag)))"

text \<open>The two counters of the first loop.\<close>

definition needs_start :: "memipc_thread_params \<Rightarrow> bool" where
  "needs_start th \<longleftrightarrow>
     state th = MEMIPC_STATE_READY \<or> state th = MEMIPC_STATE_LAUNCHED
     \<or> state th = MEMIPC_STATE_TMP_EXITING_ISOLATION \<or> state th = MEMIPC_STATE_LOST_ISOLATION
     \<or> exit_request th \<noteq> 0"

definition counts_ready :: "memipc_thread_params \<Rightarrow> bool" where
  "counts_ready th \<longleftrightarrow>
     state th = MEMIPC_STATE_READY \<or> state th = MEMIPC_STATE_TMP_EXITING_ISOLATION
     \<or> state th = MEMIPC_STATE_EXITING_ISOLATION \<or> state th = MEMIPC_STATE_LOST_ISOLATION
     \<or> state th = MEMIPC_STATE_LAUNCHING \<or> state th = MEMIPC_STATE_LAUNCHED
     \<or> state th = MEMIPC_STATE_RUNNING"

definition needs_start_count :: "memipc_thread_params list \<Rightarrow> nat" where
  "needs_start_count ths = length (filter needs_start ths)"

definition ready_count :: "memipc_thread_params list \<Rightarrow> nat" where
  "ready_count ths = length (filter counts_ready ths)"

text \<open>
  Whether the function reaches the launch loop instead of \<open>goto last_actions\<close>.
  \<open>ts_gate\<close> is the clock reading of the timeout test.
\<close>

definition launch_loop_reached :: "manager \<Rightarrow> int \<Rightarrow> bool" where
  "launch_loop_reached mg ts_gate \<longleftrightarrow>
     needs_start_count (threads mg) \<noteq> 0
     \<and> (ready_count (threads mg) < length (threads mg) \<longrightarrow>
          timeout_started mg \<noteq> 0
          \<and> \<not> ts_gate - start_time mg < global_isolated_threads_start_timeout)"

text \<open>
  The launch loop over the thread table, from index \<open>i\<close>.  \<open>clock i\<close> is the clock
  reading in iteration \<open>i\<close>.  The log holds, per request enqueued, the index of the
  thread and the request type.
\<close>

fun launch_loop ::
    "nat \<Rightarrow> cpu_set_t \<Rightarrow> cpu_set_t \<Rightarrow> (nat \<Rightarrow> int) \<Rightarrow> nat \<Rightarrow> memipc_thread_params list
     \<Rightarrow> memipc_thread_params list \<times> (nat \<times> memipc_req_type) list \<times> bool" where
  "launch_loop me timers_cpuset running clock i [] = ([], [], False)"
| "launch_loop me timers_cpuset running clock i (th # ths) =
     (case thread_step me timers_cpuset running (clock i) th of
        (th', sent, flag) \<Rightarrow>
          (case launch_loop me timers_cpuset running clock (i + 1) ths of
             (ths', log, flag') \<Rightarrow>
               (th' # ths', map (\<lambda>r. (i, r)) sent @ log, flag \<or> flag')))"

text \<open>
  What one call leaves behind: the manager's globals, the requests enqueued, and whether
  \<open>process_all_threads\<close> is called at \<open>last_actions\<close>.
\<close>

record launch_result =
  lr_manager :: manager
  lr_log :: "(nat \<times> memipc_req_type) list"
  lr_sweep :: bool

text \<open>
  \<open>memipc_isolation_process_ready_launch\<close>.  \<open>ts_gate\<close>, \<open>clock\<close> and \<open>ts_last\<close>
  are the clock readings of the timeout test, of the loop iterations and of
  \<open>last_actions\<close> (there the second reading, stored in \<open>last_thread_scan\<close>, is
  \<open>ts_scan\<close>).  The sweep itself is \<open>process_all_threads\<close> below.
\<close>

definition memipc_isolation_process_ready_launch ::
    "manager \<Rightarrow> cpu_set_t \<Rightarrow> int \<Rightarrow> (nat \<Rightarrow> int) \<Rightarrow> int \<Rightarrow> int \<Rightarrow> launch_result" where
  "memipc_isolation_process_ready_launch mg timers_cpuset ts_gate clock ts_last ts_scan =
     (case (if launch_loop_reached mg ts_gate
            then launch_loop (memipc_my_pid mg) timers_cpuset (running_cpuset mg) clock 0 (threads mg)
            else (threads mg, [], False)) of
        (ths', log, show_running_threads_flag) \<Rightarrow>
          if show_running_threads_flag
          then \<lparr>lr_manager = mg\<lparr>threads := ths'\<rparr>, lr_log = log, lr_sweep = True\<rparr>
          else if last_thread_scan mg = 0 \<or> ts_last - last_thread_scan mg > 3
          then \<lparr>lr_manager = mg\<lparr>threads := ths',
                   last_thread_scan := (if ts_scan = 0 then 1 else ts_scan)\<rparr>,
                lr_log = log, lr_sweep = True\<rparr>
          else \<lparr>lr_manager = mg\<lparr>threads := ths'\<rparr>, lr_log = log, lr_sweep = False\<rparr>)"

text \<open>
  A manager with one worker on CPU 1 whose ring is the empty 32-byte ring above, used in
  the examples: \<open>worker_in s t\<close> is that worker in state \<open>s\<close> with isolation-exit time
  \<open>t\<close>, and \<open>clock_at t\<close> a clock that reads \<open>t\<close> at every call.
\<close>

definition worker_in :: "memipc_thread_state \<Rightarrow> int \<Rightarrow> memipc_thread_params" where
  "worker_in s t =
     \<lparr>index = 0, cpu = 1, thread_id = 7, pid = 100, tid = 101, claim_counter = 1, isolated = 2,
      state = s, exit_request = 0, isol_exit_time = t, m_memipc_mosi = ring32,
      mosi_mem = zero_mem, memipc_check_signal_ptr = None, counter_ptr = None,
      foreign_desc = None, timers = [], lasttimer = KTIME_MAX, updatetimer = KTIME_MAX\<rparr>"

definition manager_of :: "memipc_thread_params \<Rightarrow> manager" where
  "manager_of th =
     \<lparr>threads = [th], running_cpuset = {|1|}, timeout_started = 1, start_time = 0,
      last_thread_scan = 0, memipc_my_pid = 1\<rparr>"

definition clock_at :: "int \<Rightarrow> nat \<Rightarrow> int" where
  "clock_at t i = t"


section \<open>The process-table sweeper (isol.c, process_all_threads)\<close>

text \<open>
  One entry of the process table, \<^verbatim>\<open>struct foreign_thread_desc\<close>.  The fields
  \<^verbatim>\<open>pid\<close>, \<^verbatim>\<open>tid\<close> and \<^verbatim>\<open>cpu\<close> carry the prefix \<^verbatim>\<open>fd\<close> because the worker
  record already owns those names.  \<^verbatim>\<open>isolated_thread\<close> is the index of the
  worker the entry is attached to, or \<^verbatim>\<open>None\<close> for the C null pointer.
\<close>

record foreign_thread_desc =
  fd_pid :: int
  fd_tid :: int
  isolated_thread :: "nat option"
  cpus_allowed :: cpu_set_t
  fd_cpu :: int
  vol_context_switches :: int
  nonvol_context_switches :: int
  update_flag :: int

definition ISOL_PROC_LIST_CMD_SHOW :: "32 word" where
  "ISOL_PROC_LIST_CMD_SHOW = 0x01"

definition ISOL_PROC_LIST_CMD_PUSH_AWAY :: "32 word" where
  "ISOL_PROC_LIST_CMD_PUSH_AWAY = 0x02"

text \<open>
  A call of \<^verbatim>\<open>sched_setaffinity(tid, sizeof(cpu_set_t), &schedule_cpuset)\<close> is recorded
  as the pair of its first and third argument.
\<close>

type_synonym setaffinity_call = "int \<times> cpu_set_t"

text \<open>
  The body of the loop over the table, lines 2241 to 2281, for the entry \<^verbatim>\<open>proctable[i]\<close>:
  the call it makes, if any.
\<close>

definition push_away_entry ::
  "int \<Rightarrow> cpu_set_t \<Rightarrow> cpu_set_t \<Rightarrow> foreign_thread_desc \<Rightarrow> setaffinity_call option" where
  "push_away_entry getpid global_isol_cpuset global_nonisol_cpuset e =
    (if isolated_thread e = None
        \<and> (fd_pid e \<noteq> getpid \<or> fd_tid e = getpid)
        \<and> CPU_COUNT (cpus_allowed e) > 1
     then
       (let overlap_cpuset = CPU_AND (cpus_allowed e) global_isol_cpuset in
        if CPU_COUNT overlap_cpuset \<noteq> 0 then
          (let schedule_cpuset = CPU_XOR (cpus_allowed e) overlap_cpuset;
               schedule_cpuset =
                 (if CPU_COUNT schedule_cpuset = 0
                  then CPU_OR schedule_cpuset global_nonisol_cpuset
                  else schedule_cpuset)
           in Some (fd_tid e, schedule_cpuset))
        else None)
     else None)"

text \<open>The loop \<^verbatim>\<open>for (i = 0; i < proctable_size; i++)\<close>: the calls made, in order.\<close>

fun push_away_loop ::
  "int \<Rightarrow> cpu_set_t \<Rightarrow> cpu_set_t \<Rightarrow> foreign_thread_desc list \<Rightarrow> setaffinity_call list" where
  "push_away_loop getpid isol nonisol [] = []"
| "push_away_loop getpid isol nonisol (e # proctable) =
    (case push_away_entry getpid isol nonisol e of
       None \<Rightarrow> push_away_loop getpid isol nonisol proctable
     | Some c \<Rightarrow> c # push_away_loop getpid isol nonisol proctable)"

text \<open>
  The part of \<^verbatim>\<open>process_all_threads\<close> that follows the enumeration of
  \<^verbatim>\<open>/proc\<close> and \<^verbatim>\<open>cleanup_threads()\<close>: \<^verbatim>\<open>proctable\<close> is the table as the
  enumeration left it, and the result is the list of affinity calls of the pass.
\<close>

definition process_all_threads_push_away ::
  "32 word \<Rightarrow> int \<Rightarrow> cpu_set_t \<Rightarrow> cpu_set_t \<Rightarrow> foreign_thread_desc list \<Rightarrow> setaffinity_call list" where
  "process_all_threads_push_away cmd getpid isol nonisol proctable =
    (if cmd AND ISOL_PROC_LIST_CMD_PUSH_AWAY \<noteq> 0
     then push_away_loop getpid isol nonisol proctable
     else [])"

text \<open>
  The rule of the specification, in its words: an entity is rebound when it is not a managed
  worker, is not a non-main thread of the manager's own process, has more than one CPU in
  its mask, and its mask meets the isolation set; the new mask is the mask minus the
  isolation set, or the non-isolation set when nothing is left.
\<close>

definition rebinding_rule ::
  "int \<Rightarrow> cpu_set_t \<Rightarrow> cpu_set_t \<Rightarrow> foreign_thread_desc \<Rightarrow> setaffinity_call option" where
  "rebinding_rule manager_pid isol nonisol e =
    (if isolated_thread e = None
        \<and> \<not> (fd_pid e = manager_pid \<and> fd_tid e \<noteq> manager_pid)
        \<and> fcard (cpus_allowed e) > 1
        \<and> cpus_allowed e |\<inter>| isol \<noteq> {||}
     then Some (fd_tid e,
                if cpus_allowed e |-| isol = {||} then nonisol else cpus_allowed e |-| isol)
     else None)"

text \<open>A table of six entities on a machine of four CPUs, of which 2 and 3 are isolated.\<close>

definition entity :: "int \<Rightarrow> int \<Rightarrow> nat option \<Rightarrow> nat list \<Rightarrow> foreign_thread_desc" where
  "entity p t w cs =
    \<lparr> fd_pid = p, fd_tid = t, isolated_thread = w, cpus_allowed = fset_of_list cs,
      fd_cpu = 0, vol_context_switches = 0, nonvol_context_switches = 0, update_flag = 1 \<rparr>"

definition sweep_table :: "foreign_thread_desc list" where
  "sweep_table =
    [ entity 100 100 None [0, 1, 2, 3],
      entity 100 101 None [0, 1, 2, 3],
      entity 100 102 (Some 0) [2, 3],
      entity 200 200 None [2, 3],
      entity 300 300 None [2],
      entity 400 400 None [0, 1] ]"


section \<open>The text protocol of the manager's socket (isol.c, client_text_handler)\<close>

text \<open>
  \<^verbatim>\<open>struct client_desc\<close> of isol-server.c, with the fields the handler reaches:
  \<^verbatim>\<open>flags\<close>, \<^verbatim>\<open>task\<close> (the index of the worker the pointer refers to, \<^verbatim>\<open>None\<close> for
  \<^verbatim>\<open>NULL\<close>), and, as \<^verbatim>\<open>tx_out\<close>, the bytes that \<^verbatim>\<open>send_data_persist\<close> and
  \<^verbatim>\<open>send_tx_persist\<close> were given for this client, in order.  Whether the bytes leave at once
  or wait in the output buffer, and the loss of bytes on a permanent socket error, are not
  part of the model; neither is a failing \<^verbatim>\<open>malloc\<close> in \<^verbatim>\<open>tx_add_text\<close>.
\<close>

record client_desc =
  flags :: "32 word"
  task :: "nat option"
  tx_out :: string

definition CLIENT_FLAG_INVALID :: "32 word" where
  "CLIENT_FLAG_INVALID = 1"

definition CLIENT_FLAG_CLOSE :: "32 word" where
  "CLIENT_FLAG_CLOSE = 2"

definition set_client_flags :: "client_desc \<Rightarrow> 32 word \<Rightarrow> client_desc" where
  "set_client_flags c v = c\<lparr>flags := flags c OR v\<rparr>"

definition close_client_connection :: "client_desc \<Rightarrow> client_desc" where
  "close_client_connection c = set_client_flags c CLIENT_FLAG_CLOSE"

definition get_client_task :: "client_desc \<Rightarrow> nat option" where
  "get_client_task c = task c"

definition set_client_task :: "client_desc \<Rightarrow> nat option \<Rightarrow> client_desc" where
  "set_client_task c t = c\<lparr>task := t\<rparr>"

definition send_data_persist :: "client_desc \<Rightarrow> string \<Rightarrow> client_desc" where
  "send_data_persist c data = c\<lparr>tx_out := tx_out c @ data\<rparr>"

text \<open>A \<^verbatim>\<open>struct tx_text\<close> is the list of its chunks.\<close>

type_synonym tx_text = "string list"

definition tx_init :: tx_text where
  "tx_init = []"

definition tx_add_text :: "tx_text \<Rightarrow> string \<Rightarrow> tx_text" where
  "tx_add_text tx text = tx @ [text]"

text \<open>\<^verbatim>\<open>sprintf(s, "%ld", v)\<close>: the decimal digits of a \<^verbatim>\<open>long\<close>.\<close>

definition digit_char :: "nat \<Rightarrow> char" where
  "digit_char d = char_of (48 + d)"

function decimal_nat :: "nat \<Rightarrow> string" where
  "decimal_nat v = (if v < 10 then [digit_char v] else decimal_nat (v div 10) @ [digit_char (v mod 10)])"
  by pat_completeness auto
termination
  by (relation "measure id") auto

declare decimal_nat.simps [simp del]

definition decimal_long :: "int \<Rightarrow> string" where
  "decimal_long v = (if v < 0 then CHR ''-'' # decimal_nat (nat (- v)) else decimal_nat (nat v))"

definition tx_add_text_num :: "tx_text \<Rightarrow> int \<Rightarrow> tx_text" where
  "tx_add_text_num tx v = tx_add_text tx (decimal_long v)"

definition send_tx_persist :: "client_desc \<Rightarrow> tx_text \<Rightarrow> client_desc" where
  "send_tx_persist c tx = c\<lparr>tx_out := tx_out c @ concat tx\<rparr>"

text \<open>
  C strings are the lists of their characters before the terminating zero; \<^verbatim>\<open>c_string\<close>
  cuts a list at its first zero, so that the end of the list is the end of the string.
\<close>

definition c_string :: "string \<Rightarrow> string" where
  "c_string s = takeWhile (\<lambda>c. (of_char c :: nat) \<noteq> 0) s"

text \<open>\<^verbatim>\<open>strchr(s, c)\<close> for a character other than zero: the rest from the first \<^verbatim>\<open>c\<close> on.\<close>

definition strchr :: "string \<Rightarrow> char \<Rightarrow> string option" where
  "strchr s c = (case dropWhile (\<lambda>x. x \<noteq> c) s of [] \<Rightarrow> None | r \<Rightarrow> Some r)"

text \<open>
  \<^verbatim>\<open>get_uint\<close>: the loop runs over the leading decimal digits, in \<^verbatim>\<open>unsigned int\<close>.
\<close>

definition is_digit :: "char \<Rightarrow> bool" where
  "is_digit c \<longleftrightarrow> (48 :: nat) \<le> of_char c \<and> (of_char c :: nat) \<le> 57"

fun get_uint_loop :: "32 word \<Rightarrow> string \<Rightarrow> 32 word" where
  "get_uint_loop val [] = val"
| "get_uint_loop val (c # s) =
    (if is_digit c then get_uint_loop (val * 10 + of_nat (of_char c - 48)) s else val)"

definition get_uint :: "string \<Rightarrow> 32 word" where
  "get_uint s = get_uint_loop 0 s"

text \<open>
  \<^verbatim>\<open>get_int\<close>: the same loop after an optional minus sign, in \<^verbatim>\<open>int\<close>; the arithmetic is
  taken to wrap around, and the result is the signed reading of the word.
\<close>

definition get_int :: "string \<Rightarrow> int" where
  "get_int s =
    (case s of
       [] \<Rightarrow> 0
     | c # r \<Rightarrow>
         if c = CHR ''-'' then sint (get_uint_loop 0 r * (- 1))
         else sint (get_uint_loop 0 s * 1))"

text \<open>
  \<^verbatim>\<open>isolation_claim_cpu\<close>: the first worker on the wanted CPU (any CPU for a negative
  argument) whose \<^verbatim>\<open>claim_counter\<close> is zero is claimed, its counter becoming one.  A counter
  found non-zero is incremented and decremented again, which leaves it as it was.
\<close>

fun isolation_claim_cpu_loop :: "int \<Rightarrow> memipc_thread_params list \<Rightarrow> nat \<Rightarrow> nat option" where
  "isolation_claim_cpu_loop c [] i = None"
| "isolation_claim_cpu_loop c (th # ths) i =
    (if (c < 0 \<or> cpu th = c) \<and> claim_counter th = 0 then Some i
     else isolation_claim_cpu_loop c ths (Suc i))"

definition isolation_claim_cpu ::
  "int \<Rightarrow> memipc_thread_params list \<Rightarrow> nat option \<times> memipc_thread_params list" where
  "isolation_claim_cpu c ths =
    (case isolation_claim_cpu_loop c ths 0 of
       None \<Rightarrow> (None, ths)
     | Some i \<Rightarrow> (Some i, ths[i := (ths ! i)\<lparr>claim_counter := claim_counter (ths ! i) + 1\<rparr>]))"

definition isolation_release_cpu :: "memipc_thread_params \<Rightarrow> memipc_thread_params" where
  "isolation_release_cpu th = th\<lparr>claim_counter := claim_counter th - 1\<rparr>"

definition memipc_isolation_terminate_all_threads ::
  "memipc_thread_params list \<Rightarrow> memipc_thread_params list" where
  "memipc_isolation_terminate_all_threads ths = map (\<lambda>th. th\<lparr>exit_request := 1\<rparr>) ths"

text \<open>
  What the handler works on: the manager's globals, the process table, and the descriptor
  of the client whose line is handled.
\<close>

record handler_state =
  hs_manager :: manager
  hs_proctable :: "foreign_thread_desc list"
  hs_client :: client_desc

text \<open>
  \<^verbatim>\<open>memipc_detach_thread_from_desc(desc)\<close> for the entry \<^verbatim>\<open>j\<close> of the process table.
\<close>

definition memipc_detach_thread_from_desc ::
  "nat \<Rightarrow> memipc_thread_params list \<times> foreign_thread_desc list
     \<Rightarrow> memipc_thread_params list \<times> foreign_thread_desc list" where
  "memipc_detach_thread_from_desc j tp =
    (case tp of (ths, pt) \<Rightarrow>
       if j < length pt then
         (case isolated_thread (pt ! j) of
            None \<Rightarrow> (ths, pt)
          | Some k \<Rightarrow>
              ((if k < length ths then ths[k := (ths ! k)\<lparr>foreign_desc := None\<rparr>] else ths),
               pt[j := (pt ! j)\<lparr>isolated_thread := None\<rparr>]))
       else (ths, pt))"

text \<open>The commands of the protocol, and the texts of the fixed responses.\<close>

datatype isol_srv_cmd =
    ISOL_SRV_CMD_QUIT
  | ISOL_SRV_CMD_TERMINATE
  | ISOL_SRV_CMD_NEWTASK
  | ISOL_SRV_CMD_TASKISOLFAIL
  | ISOL_SRV_CMD_TASKISOLFINISH
  | ISOL_SRV_CMD_ARRAY_SIZE

definition commands :: "(isol_srv_cmd \<times> string) list" where
  "commands =
    [ (ISOL_SRV_CMD_QUIT, ''quit''),
      (ISOL_SRV_CMD_TERMINATE, ''terminate''),
      (ISOL_SRV_CMD_NEWTASK, ''newtask''),
      (ISOL_SRV_CMD_TASKISOLFAIL, ''taskisolfail''),
      (ISOL_SRV_CMD_TASKISOLFINISH, ''taskisolfinish'') ]"

definition inv_response :: string where
  "inv_response = ''500 Invalid command.\<newline>''"

definition alr_connected_response :: string where
  "alr_connected_response = ''500 Already connected.\<newline>''"

definition no_task_resp :: string where
  "no_task_resp = ''500 No task connected.\<newline>''"

definition cant_alloc_resp :: string where
  "cant_alloc_resp = ''500 Can't allocate CPU.\<newline>''"

definition endsession :: string where
  "endsession = ''221 End of session.\<newline>''"

definition terminating :: string where
  "terminating = ''200-Terminating threads.\<newline>221 End of session.\<newline>''"

definition ok_resp :: string where
  "ok_resp = ''220 Ok\<newline>''"

text \<open>
  The head of the handler.  The command word is the run of characters above the space at
  the start of the line; it selects the first command of the table that has its length and
  its characters.  The argument starts after the characters up to the space that follow the
  word, and is \<^verbatim>\<open>NULL\<close> when nothing is left.
\<close>

definition command_word :: "string \<Rightarrow> string" where
  "command_word line = takeWhile (\<lambda>c. (of_char c :: nat) > 32) (c_string line)"

fun find_command :: "string \<Rightarrow> (isol_srv_cmd \<times> string) list \<Rightarrow> isol_srv_cmd" where
  "find_command w [] = ISOL_SRV_CMD_ARRAY_SIZE"
| "find_command w ((c, name) # rest) =
    (if length w = length name \<and> take (length name) w = name then c else find_command w rest)"

definition command_of :: "string \<Rightarrow> isol_srv_cmd" where
  "command_of line = find_command (command_word line) commands"

definition command_arg :: "string \<Rightarrow> string option" where
  "command_arg line =
    (case dropWhile (\<lambda>c. (of_char c :: nat) \<le> 32)
            (dropWhile (\<lambda>c. (of_char c :: nat) > 32) (c_string line)) of
       [] \<Rightarrow> None
     | p \<Rightarrow> Some p)"

text \<open>
  The first half of the \<^verbatim>\<open>newtask\<close> case, lines 4607 to 4634: the values of
  \<^verbatim>\<open>client_cpu\<close>, \<^verbatim>\<open>client_pid\<close> and \<^verbatim>\<open>client_tid\<close> after it, and whether
  \<^verbatim>\<open>inv_response\<close> was sent.
\<close>

definition newtask_parse :: "string option \<Rightarrow> bool \<times> int \<times> 32 word \<times> 32 word" where
  "newtask_parse arg =
    (case arg of
       None \<Rightarrow> (True, - 1, 0, 0)
     | Some a \<Rightarrow>
         (case strchr a CHR '','' of
            None \<Rightarrow> (True, - 1, 0, 0)
          | Some p1 \<Rightarrow>
              (let client_cpu = get_int a in
               case strchr p1 CHR ''/'' of
                 None \<Rightarrow> (True, client_cpu, 0, 0)
               | Some p2 \<Rightarrow> (False, client_cpu, get_uint (tl p1), get_uint (tl p2)))))"

text \<open>
  The second half, lines 4635 to 4707.  \<^verbatim>\<open>getpid\<close> is the process id of the manager.
  The \<^verbatim>\<open>pid_t\<close> values are the signed readings of what \<^verbatim>\<open>get_uint\<close> returned.
\<close>

definition newtask_claim ::
  "int \<Rightarrow> handler_state \<Rightarrow> int \<Rightarrow> 32 word \<Rightarrow> 32 word \<Rightarrow> handler_state" where
  "newtask_claim getpid st client_cpu client_pid client_tid =
    (if client_pid \<noteq> 0 \<and> client_tid \<noteq> 0 then
       (if get_client_task (hs_client st) \<noteq> None then
          st\<lparr>hs_client := send_data_persist (hs_client st) alr_connected_response\<rparr>
        else
          (case isolation_claim_cpu client_cpu (threads (hs_manager st)) of
             (None, ths) \<Rightarrow>
               st\<lparr>hs_client := send_data_persist (hs_client st) cant_alloc_resp\<rparr>
           | (Some i, ths) \<Rightarrow>
               (let thread = (ths ! i)
                      \<lparr>memipc_check_signal_ptr := None, counter_ptr := None, thread_id := 0,
                       pid := sint client_pid, tid := sint client_tid, isolated := 1\<rparr>;
                    serv_resp = tx_add_text tx_init ''200-Task allocated\<newline>'';
                    serv_resp =
                      (if pid thread = getpid
                       then tx_add_text_num
                              (tx_add_text serv_resp ''200-MODE=THREAD\<newline>200-INDEX='')
                              (index thread)
                       else tx_add_text serv_resp ''200-MODE=PROCESS\<newline>'');
                    serv_resp = tx_add_text serv_resp ''\<newline>200-CPU='';
                    serv_resp = tx_add_text_num serv_resp (cpu thread);
                    serv_resp = tx_add_text serv_resp ''\<newline>200 OK\<newline>'';
                    c = send_tx_persist (hs_client st) serv_resp;
                    c = set_client_task c (Some i)
                in st\<lparr>hs_manager := (hs_manager st)
                         \<lparr>threads := ths[i := thread\<lparr>state := MEMIPC_STATE_STARTED\<rparr>],
                          running_cpuset := CPU_SET (cpu thread) (running_cpuset (hs_manager st))\<rparr>,
                       hs_client := c\<rparr>)))
     else st)"

definition newtask :: "int \<Rightarrow> handler_state \<Rightarrow> string option \<Rightarrow> handler_state" where
  "newtask getpid st arg =
    (case newtask_parse arg of
       (invalid, client_cpu, client_pid, client_tid) \<Rightarrow>
         newtask_claim getpid
           (if invalid then st\<lparr>hs_client := send_data_persist (hs_client st) inv_response\<rparr> else st)
           client_cpu client_pid client_tid)"

text \<open>
  The \<^verbatim>\<open>taskisolfail\<close> case, as compiled with \<^verbatim>\<open>ISOLATION_MONITOR_IN_MASTER\<close>;
  \<^verbatim>\<open>ts\<close> is the \<^verbatim>\<open>tv_sec\<close> that \<^verbatim>\<open>clock_gettime\<close> gives.
\<close>

definition taskisolfail :: "int \<Rightarrow> handler_state \<Rightarrow> handler_state" where
  "taskisolfail ts st =
    (case get_client_task (hs_client st) of
       None \<Rightarrow> st\<lparr>hs_client := send_data_persist (hs_client st) no_task_resp\<rparr>
     | Some i \<Rightarrow>
         (let mg = hs_manager st;
              thread = threads mg ! i;
              thread =
                (if isolated thread = 0
                    \<and> state thread \<noteq> MEMIPC_STATE_TMP_EXITING_ISOLATION
                    \<and> state thread \<noteq> MEMIPC_STATE_EXITING_ISOLATION
                 then
                   (case send_req (memipc_my_pid mg)
                           (thread\<lparr>state := MEMIPC_STATE_LOST_ISOLATION, isol_exit_time := ts\<rparr>)
                           MEMIPC_REQ_START_LAUNCH of
                      (r, th') \<Rightarrow> if r = 0 then th'\<lparr>state := MEMIPC_STATE_LAUNCHING\<rparr> else th')
                 else thread)
          in st\<lparr>hs_manager := mg\<lparr>threads := (threads mg)[i := thread]\<rparr>,
                hs_client := send_data_persist (hs_client st) ok_resp\<rparr>))"

text \<open>
  The \<^verbatim>\<open>taskisolfinish\<close> case.  \<^verbatim>\<open>pthread_join\<close> changes nothing of the state, and the
  fields \<^verbatim>\<open>start_routine\<close> and \<^verbatim>\<open>userdata\<close> are not in the worker record.
\<close>

definition taskisolfinish :: "handler_state \<Rightarrow> handler_state" where
  "taskisolfinish st =
    (case get_client_task (hs_client st) of
       None \<Rightarrow> st\<lparr>hs_client := send_data_persist (hs_client st) no_task_resp\<rparr>
     | Some i \<Rightarrow>
         (let mg = hs_manager st;
              thread = (threads mg ! i)
                \<lparr>state := MEMIPC_STATE_OFF, counter_ptr := None, exit_request := 0\<rparr>;
              running = CPU_CLR (cpu thread) (running_cpuset mg);
              ths = (threads mg)[i := thread];
              (ths, pt) =
                (case foreign_desc thread of
                   None \<Rightarrow> (ths, hs_proctable st)
                 | Some j \<Rightarrow> memipc_detach_thread_from_desc j (ths, hs_proctable st));
              thread = (ths ! i)\<lparr>isolated := 0, lasttimer := KTIME_MAX, updatetimer := KTIME_MAX\<rparr>;
              thread = isolation_release_cpu thread;
              c = set_client_task (hs_client st) None;
              c = send_data_persist c endsession;
              c = close_client_connection c
          in \<lparr>hs_manager = mg\<lparr>threads := ths[i := thread], running_cpuset := running\<rparr>,
              hs_proctable = pt,
              hs_client = c\<rparr>))"

text \<open>
  The handler.  \<^verbatim>\<open>getpid\<close> is the process id of the manager and \<^verbatim>\<open>ts\<close> the reading
  of the clock.
\<close>

definition client_text_handler :: "int \<Rightarrow> int \<Rightarrow> handler_state \<Rightarrow> string \<Rightarrow> handler_state" where
  "client_text_handler getpid ts st line =
    (case command_of line of
       ISOL_SRV_CMD_QUIT \<Rightarrow>
         st\<lparr>hs_client := close_client_connection (send_data_persist (hs_client st) endsession)\<rparr>
     | ISOL_SRV_CMD_TERMINATE \<Rightarrow>
         st\<lparr>hs_manager := (hs_manager st)
               \<lparr>threads := memipc_isolation_terminate_all_threads (threads (hs_manager st))\<rparr>,
            hs_client := close_client_connection (send_data_persist (hs_client st) terminating)\<rparr>
     | ISOL_SRV_CMD_NEWTASK \<Rightarrow> newtask getpid st (command_arg line)
     | ISOL_SRV_CMD_TASKISOLFAIL \<Rightarrow> taskisolfail ts st
     | ISOL_SRV_CMD_TASKISOLFINISH \<Rightarrow> taskisolfinish st
     | ISOL_SRV_CMD_ARRAY_SIZE \<Rightarrow>
         st\<lparr>hs_client := send_data_persist (hs_client st) inv_response\<rparr>)"

text \<open>A session with no task attached, and a manager with one free worker on CPU 1.\<close>

definition free_worker :: memipc_thread_params where
  "free_worker = (worker_in MEMIPC_STATE_OFF 0)\<lparr>claim_counter := 0, isolated := 0\<rparr>"

definition session0 :: handler_state where
  "session0 =
    \<lparr> hs_manager = (manager_of free_worker)\<lparr>running_cpuset := {||}\<rparr>,
      hs_proctable = [],
      hs_client = \<lparr> flags = 0, task = None, tx_out = [] \<rparr> \<rparr>"


section \<open>The timer feed (isol.c, process_all_timers)\<close>

subsection \<open>Text parser internals\<close>

text \<open>
  A position in a line is the rest of the line from there on.  \<^verbatim>\<open>token_at p\<close> is the text
  between \<^verbatim>\<open>p\<close> and \<^verbatim>\<open>find_endtoken(p)\<close>.
\<close>

definition skip_whitespace :: "string \<Rightarrow> string" where
  "skip_whitespace p = dropWhile (\<lambda>c. (of_char c :: nat) \<le> 32) p"

definition find_endtoken :: "string \<Rightarrow> string" where
  "find_endtoken p = dropWhile (\<lambda>c. (of_char c :: nat) > 32) p"

definition token_at :: "string \<Rightarrow> string" where
  "token_at p = takeWhile (\<lambda>c. (of_char c :: nat) > 32) p"

text \<open>
  \<^verbatim>\<open>skip_word\<close>: \<^verbatim>\<open>Some\<close> of the new position for the return value 0, \<^verbatim>\<open>None\<close> for
  \<^verbatim>\<open>-1\<close>, which leaves the position where it was.
\<close>

definition skip_word :: "string \<Rightarrow> string \<Rightarrow> string option" where
  "skip_word p word =
    (let curr = skip_whitespace p;
         tok = token_at curr
     in if length tok = length word \<and> tok = take (length tok) word
        then Some (skip_whitespace (find_endtoken curr))
        else None)"

definition unhex :: "char \<Rightarrow> u8" where
  "unhex c =
    (let v = (of_char c :: nat) in
     if 48 \<le> v \<and> v \<le> 57 then of_nat (v - 48)
     else if 97 \<le> v \<and> v \<le> 102 then of_nat (v - 97 + 10)
     else if 65 \<le> v \<and> v \<le> 70 then of_nat (v - 65 + 10)
     else 0)"

text \<open>
  \<^verbatim>\<open>sscanf\<close> with the formats \<^verbatim>\<open>%d\<close> and \<^verbatim>\<open>%lu\<close>: white space, an optional sign, and
  at least one decimal digit; \<^verbatim>\<open>None\<close> stands for a return value other than 1, in which
  case the variable keeps its value.  The number is reduced to the width of the variable;
  what the library does with a number that does not fit is not modelled.
\<close>

definition is_space :: "char \<Rightarrow> bool" where
  "is_space c \<longleftrightarrow> (of_char c :: nat) = 32 \<or> (9 \<le> (of_char c :: nat) \<and> (of_char c :: nat) \<le> 13)"

definition decimal_value :: "string \<Rightarrow> nat" where
  "decimal_value ds = foldl (\<lambda>a c. a * 10 + (of_char c - 48)) 0 ds"

definition scan_number :: "string \<Rightarrow> int option" where
  "scan_number s =
    (let s1 = dropWhile is_space s;
         neg = (case s1 of [] \<Rightarrow> False | c # r \<Rightarrow> c = CHR ''-'');
         s2 = (case s1 of [] \<Rightarrow> [] | c # r \<Rightarrow> if c = CHR ''-'' \<or> c = CHR ''+'' then r else s1);
         ds = takeWhile is_digit s2
     in if ds = [] then None
        else Some (if neg then - int (decimal_value ds) else int (decimal_value ds)))"

definition sscanf_d :: "string \<Rightarrow> int option" where
  "sscanf_d s = map_option (\<lambda>v. sint (word_of_int v :: 32 word)) (scan_number s)"

definition sscanf_lu :: "string \<Rightarrow> s64 option" where
  "sscanf_lu s = map_option word_of_int (scan_number s)"

text \<open>
  The first line of the description of a high-resolution timer: the count and the state,
  or \<^verbatim>\<open>None\<close> for the return value \<^verbatim>\<open>-1\<close>.
\<close>

definition hrtimer_parse_line_1 :: "string \<Rightarrow> (int \<times> int) option" where
  "hrtimer_parse_line_1 s =
    (let p = skip_whitespace s in
     case strchr p CHR '':'' of
       None \<Rightarrow> None
     | Some e \<Rightarrow>
         (case sscanf_d p of
            None \<Rightarrow> None
          | Some a_count \<Rightarrow>
              (let p = skip_whitespace (tl e) in
               case strchr p CHR '','' of
                 None \<Rightarrow> None
               | Some e \<Rightarrow>
                   (let p = skip_whitespace (tl e) in
                    case strchr p CHR '','' of
                      None \<Rightarrow> None
                    | Some e \<Rightarrow>
                        (let p = skip_whitespace (tl e);
                             a_state =
                               (case p of
                                  c0 # c1 # r \<Rightarrow>
                                    if c0 = CHR ''S'' \<and> c1 = CHR '':''
                                    then (case sscanf_d r of None \<Rightarrow> 1 | Some v \<Rightarrow> v)
                                    else 1
                                | _ \<Rightarrow> 1)
                         in Some (a_count, a_state))))))"

text \<open>The second line: the soft and the hard expiry.\<close>

definition hrtimer_parse_line_2 :: "string \<Rightarrow> (s64 \<times> s64) option" where
  "hrtimer_parse_line_2 s =
    (case skip_word s ''expires'' of
       None \<Rightarrow> None
     | Some p \<Rightarrow>
         (case skip_word p ''at'' of
            None \<Rightarrow> None
          | Some p \<Rightarrow>
              (case strchr p CHR ''-'' of
                 None \<Rightarrow> None
               | Some e \<Rightarrow>
                   (case sscanf_lu p of
                      None \<Rightarrow> None
                    | Some a_softexp \<Rightarrow>
                        (case sscanf_lu (tl e) of
                           None \<Rightarrow> None
                         | Some a_exp \<Rightarrow> Some (a_softexp, a_exp))))))"

text \<open>
  \<^verbatim>\<open>get_cpuset\<close>: the set that a mask of hexadecimal digits names, the last digit standing
  for the CPUs 0 to 3.  The count it returns is not used by the caller.
\<close>

definition is_hex_digit :: "char \<Rightarrow> bool" where
  "is_hex_digit c \<longleftrightarrow>
    (let v = (of_char c :: nat) in
     (48 \<le> v \<and> v \<le> 57) \<or> (65 \<le> v \<and> v \<le> 70) \<or> (97 \<le> v \<and> v \<le> 102))"

definition get_cpuset_digit :: "string \<Rightarrow> nat \<Rightarrow> nat \<Rightarrow> cpu_set_t \<Rightarrow> cpu_set_t" where
  "get_cpuset_digit digits cpus_in_set i cs =
    (let val = unhex (digits ! (length digits - i - 1));
         cs = (if val AND 1 \<noteq> 0 \<and> i * 4 < cpus_in_set then CPU_SET (int (i * 4)) cs else cs);
         cs = (if val AND 2 \<noteq> 0 \<and> i * 4 + 1 < cpus_in_set then CPU_SET (int (i * 4 + 1)) cs else cs);
         cs = (if val AND 4 \<noteq> 0 \<and> i * 4 + 2 < cpus_in_set then CPU_SET (int (i * 4 + 2)) cs else cs);
         cs = (if val AND 8 \<noteq> 0 \<and> i * 4 + 3 < cpus_in_set then CPU_SET (int (i * 4 + 3)) cs else cs)
     in cs)"

definition get_cpuset :: "string \<Rightarrow> cpu_set_t" where
  "get_cpuset s =
    (let start = skip_whitespace s;
         digits = takeWhile is_hex_digit start;
         n = length digits * 4;
         cpus_in_set = (if n > CPU_SETSIZE then CPU_SETSIZE else n)
     in fold (get_cpuset_digit digits cpus_in_set) [0 ..< length digits] CPU_ZERO)"

subsection \<open>Timers of the workers\<close>

text \<open>
  \<^verbatim>\<open>cpu_update_timer\<close> works on the first worker of the CPU and returns 1, or returns 0 when
  the CPU has no worker.  The differences of times are read as signed numbers.
\<close>

fun cpu_update_timer ::
  "isol_timer_type \<Rightarrow> int \<Rightarrow> s64 \<Rightarrow> s64 \<Rightarrow> memipc_thread_params list
     \<Rightarrow> int \<times> memipc_thread_params list" where
  "cpu_update_timer tt c expire now [] = (0, [])"
| "cpu_update_timer tt c expire now (th # ths) =
    (if c = cpu th then
       (1, th\<lparr>lasttimer :=
                 (if lasttimer th = KTIME_MAX then expire
                  else if sint (lasttimer th - now) < 0 then KTIME_MAX
                  else if sint (lasttimer th - expire) < 0 then expire
                  else lasttimer th),
               updatetimer := now\<rparr> # ths)
     else (case cpu_update_timer tt c expire now ths of (r, ths') \<Rightarrow> (r, th # ths')))"

text \<open>
  \<^verbatim>\<open>memipc_add_timer_to_desc\<close> puts a record in front of the list of the first worker of
  the CPU; its return value is not used.
\<close>

fun memipc_add_timer_to_desc ::
  "int \<Rightarrow> isol_timer_type \<Rightarrow> s64 \<Rightarrow> s64 \<Rightarrow> memipc_thread_params list
     \<Rightarrow> memipc_thread_params list" where
  "memipc_add_timer_to_desc c tt upd ex [] = []"
| "memipc_add_timer_to_desc c tt upd ex (th # ths) =
    (if cpu th = c
     then th\<lparr>timers := \<lparr>timer_type = tt, last_updated = upd, expires = ex\<rparr> # timers th\<rparr> # ths
     else th # memipc_add_timer_to_desc c tt upd ex ths)"

definition memipc_remove_timers_from_all_desc ::
  "memipc_thread_params list \<Rightarrow> memipc_thread_params list" where
  "memipc_remove_timers_from_all_desc ths = map (\<lambda>th. th\<lparr>timers := []\<rparr>) ths"

definition cpu_remove_expired_timers ::
  "s64 \<Rightarrow> memipc_thread_params list \<Rightarrow> memipc_thread_params list" where
  "cpu_remove_expired_timers now ths =
    map (\<lambda>th. if lasttimer th \<noteq> KTIME_MAX \<and> sint (lasttimer th - now) < 0
               then th\<lparr>lasttimer := KTIME_MAX, updatetimer := now\<rparr>
               else th) ths"

subsection \<open>The parser\<close>

datatype t_pars =
    T_PARS_START
  | T_PARS_CPU_LIST
  | T_PARS_CPU
  | T_PARS_ACT
  | T_PARS_ACT_PROCESSING
  | T_PARS_TDEV
  | T_PARS_TDEV_BCAST
  | T_PARS_TDEV_CPU

datatype t_token =
    T_TOKEN_NOW
  | T_TOKEN_CPU
  | T_TOKEN_ACTIVE
  | T_TOKEN_EXPIRES_NEXT
  | T_TOKEN_TICK
  | T_TOKEN_BCAST
  | T_TOKEN_PER
  | T_TOKEN_MODE
  | T_TOKEN_NEXT_EVENT
  | T_TOKEN_BCAST_MASK
  | T_TOKEN_BCAST_ONESHOT_MASK
  | T_TOKEN_NONE

text \<open>\<^verbatim>\<open>token_timers_list\<close> together with \<^verbatim>\<open>token_timers_list_len\<close>.\<close>

definition token_timers_list :: "(t_token \<times> string \<times> nat) list" where
  "token_timers_list =
    [ (T_TOKEN_NOW, ''now'', 3),
      (T_TOKEN_CPU, ''cpu:'', 4),
      (T_TOKEN_ACTIVE, ''active'', 6),
      (T_TOKEN_EXPIRES_NEXT, ''.expires_next'', 13),
      (T_TOKEN_TICK, ''Tick'', 4),
      (T_TOKEN_BCAST, ''Broadcast'', 9),
      (T_TOKEN_PER, ''Per'', 3),
      (T_TOKEN_MODE, ''mode:'', 5),
      (T_TOKEN_NEXT_EVENT, ''next_event:'', 11),
      (T_TOKEN_BCAST_MASK, ''tick_broadcast_mask:'', 20),
      (T_TOKEN_BCAST_ONESHOT_MASK, ''tick_broadcast_oneshot_mask:'', 28) ]"

fun find_token :: "string \<Rightarrow> (t_token \<times> string \<times> nat) list \<Rightarrow> t_token" where
  "find_token tok [] = T_TOKEN_NONE"
| "find_token tok ((t, name, len) # rest) =
    (if length tok = len \<and> tok = take (length tok) name then t else find_token tok rest)"

definition HRTIMER_STATE_INACTIVE :: int where
  "HRTIMER_STATE_INACTIVE = 0"

definition CLOCK_EVT_STATE_PERIODIC :: int where
  "CLOCK_EVT_STATE_PERIODIC = 2"

definition CLOCK_EVT_STATE_ONESHOT :: int where
  "CLOCK_EVT_STATE_ONESHOT = 3"

definition TICK_DEV_KNOWN_NONE :: "32 word" where
  "TICK_DEV_KNOWN_NONE = 0x00"

definition TICK_DEV_KNOWN_CPU :: "32 word" where
  "TICK_DEV_KNOWN_CPU = 0x01"

definition TICK_DEV_KNOWN_STATE :: "32 word" where
  "TICK_DEV_KNOWN_STATE = 0x02"

definition TICK_DEV_KNOWN_NEXT_EVENT :: "32 word" where
  "TICK_DEV_KNOWN_NEXT_EVENT = 0x04"

definition TICK_DEV_KNOWN_BCAST_SET :: "32 word" where
  "TICK_DEV_KNOWN_BCAST_SET = 0x08"

definition TICK_DEV_KNOWN_BCAST_OS_SET :: "32 word" where
  "TICK_DEV_KNOWN_BCAST_OS_SET = 0x10"

text \<open>
  The local variables of \<^verbatim>\<open>process_all_timers\<close>, the set behind its parameter
  \<^verbatim>\<open>cpuset\<close> (\<^verbatim>\<open>cpuset_out\<close>), and the table of the workers (\<^verbatim>\<open>threads_glob\<close>).
\<close>

record timer_parser =
  parser_state :: t_pars
  now_at :: s64
  expires_next :: s64
  hrtimer_softexp :: s64
  hrtimer_exp :: s64
  tick_dev_next_event :: s64
  curr_cpu :: int
  tick_dev_cpu :: int
  hrtimer_parse_err :: int
  hrtimer_count :: int
  hrtimer_state :: int
  tick_dev_mode :: int
  tick_dev_state :: int
  tick_dev_known :: "32 word"
  tick_dev_cpuset :: cpu_set_t
  tick_dev_os_cpuset :: cpu_set_t
  cpuset_out :: cpu_set_t
  threads_glob :: "memipc_thread_params list"

definition parser_init :: "memipc_thread_params list \<Rightarrow> timer_parser" where
  "parser_init ths =
    \<lparr> parser_state = T_PARS_START,
      now_at = KTIME_MAX, expires_next = KTIME_MAX,
      hrtimer_softexp = KTIME_MAX, hrtimer_exp = KTIME_MAX,
      tick_dev_next_event = KTIME_MAX,
      curr_cpu = - 1, tick_dev_cpu = - 1,
      hrtimer_parse_err = 0, hrtimer_count = 0, hrtimer_state = 0,
      tick_dev_mode = 0, tick_dev_state = 0, tick_dev_known = TICK_DEV_KNOWN_NONE,
      tick_dev_cpuset = CPU_ZERO, tick_dev_os_cpuset = CPU_ZERO,
      cpuset_out = CPU_ZERO,
      threads_glob = memipc_remove_timers_from_all_desc ths \<rparr>"

text \<open>
  \<^verbatim>\<open>if (cpu_update_timer(type, cpu, expire, now_at)) CPU_SET(cpu, cpuset)\<close>, the step
  that every kind of timer ends in.
\<close>

definition count_timer :: "isol_timer_type \<Rightarrow> int \<Rightarrow> s64 \<Rightarrow> timer_parser \<Rightarrow> timer_parser" where
  "count_timer tt c expire ps =
    (case cpu_update_timer tt c expire (now_at ps) (threads_glob ps) of
       (r, ths) \<Rightarrow>
         ps\<lparr>threads_glob := ths,
            cpuset_out := (if r \<noteq> 0 then CPU_SET c (cpuset_out ps) else cpuset_out ps)\<rparr>)"

text \<open>A line that starts with \<^verbatim>\<open>#\<close>; \<^verbatim>\<open>s\<close> is the line after that character.\<close>

definition hash_step :: "timer_parser \<Rightarrow> string \<Rightarrow> timer_parser" where
  "hash_step ps s =
    (case parser_state ps of
       T_PARS_ACT \<Rightarrow>
         (case hrtimer_parse_line_1 s of
            None \<Rightarrow> ps\<lparr>parser_state := T_PARS_ACT_PROCESSING, hrtimer_parse_err := - 1\<rparr>
          | Some (a_count, a_state) \<Rightarrow>
              ps\<lparr>parser_state := T_PARS_ACT_PROCESSING, hrtimer_parse_err := 0,
                 hrtimer_count := a_count, hrtimer_state := a_state\<rparr>)
     | T_PARS_ACT_PROCESSING \<Rightarrow>
         (let ps = ps\<lparr>parser_state := T_PARS_ACT\<rparr>;
              ps = (case hrtimer_parse_line_2 s of
                      None \<Rightarrow> ps\<lparr>hrtimer_parse_err := hrtimer_parse_err ps OR (- 1)\<rparr>
                    | Some (a_softexp, a_exp) \<Rightarrow>
                        ps\<lparr>hrtimer_parse_err := hrtimer_parse_err ps OR 0,
                           hrtimer_softexp := a_softexp, hrtimer_exp := a_exp\<rparr>)
          in if hrtimer_parse_err ps = 0
                \<and> hrtimer_state ps \<noteq> HRTIMER_STATE_INACTIVE
                \<and> (hrtimer_exp ps \<noteq> KTIME_MAX \<or> hrtimer_softexp ps \<noteq> KTIME_MAX)
             then
               (let ps = count_timer ISOL_TIMER_HRTIMER (curr_cpu ps) (hrtimer_exp ps) ps
                in ps\<lparr>threads_glob :=
                        memipc_add_timer_to_desc (curr_cpu ps) ISOL_TIMER_HRTIMER
                          (now_at ps) (hrtimer_exp ps) (threads_glob ps)\<rparr>)
             else ps)
     | _ \<Rightarrow> ps)"

text \<open>
  The \<^verbatim>\<open>switch (token)\<close>; \<^verbatim>\<open>e\<close> is the position after the first token of the line.
\<close>

definition token_step :: "timer_parser \<Rightarrow> t_token \<Rightarrow> string \<Rightarrow> timer_parser" where
  "token_step ps token e =
    (case token of
       T_TOKEN_NOW \<Rightarrow>
         if parser_state ps = T_PARS_START then
           (case skip_word e ''at'' of
              None \<Rightarrow> ps
            | Some e \<Rightarrow>
                (case sscanf_lu e of
                   None \<Rightarrow> ps
                 | Some v \<Rightarrow> ps\<lparr>now_at := v, parser_state := T_PARS_CPU_LIST\<rparr>))
         else ps
     | T_TOKEN_CPU \<Rightarrow>
         if parser_state ps = T_PARS_CPU_LIST \<or> parser_state ps = T_PARS_CPU
            \<or> parser_state ps = T_PARS_ACT then
           (case sscanf_d e of
              None \<Rightarrow> ps
            | Some v \<Rightarrow> ps\<lparr>curr_cpu := v, parser_state := T_PARS_CPU, expires_next := KTIME_MAX\<rparr>)
         else ps
     | T_TOKEN_ACTIVE \<Rightarrow>
         (case skip_word e ''timers:'' of
            None \<Rightarrow> ps
          | Some e \<Rightarrow>
              if parser_state ps = T_PARS_CPU then ps\<lparr>parser_state := T_PARS_ACT\<rparr> else ps)
     | T_TOKEN_EXPIRES_NEXT \<Rightarrow>
         if parser_state ps = T_PARS_CPU \<or> parser_state ps = T_PARS_ACT then
           (case skip_word e '':'' of
              None \<Rightarrow> ps
            | Some e \<Rightarrow>
                (case sscanf_lu e of
                   None \<Rightarrow> ps
                 | Some v \<Rightarrow>
                     (let ps = ps\<lparr>expires_next := v, parser_state := T_PARS_CPU_LIST\<rparr>
                      in if expires_next ps \<noteq> KTIME_MAX
                         then count_timer ISOL_TIMER_CPUTIMER (curr_cpu ps) (expires_next ps) ps
                         else ps)))
         else ps
     | T_TOKEN_TICK \<Rightarrow>
         if parser_state ps = T_PARS_CPU_LIST \<or> parser_state ps = T_PARS_CPU
            \<or> parser_state ps = T_PARS_ACT \<or> parser_state ps = T_PARS_TDEV
            \<or> parser_state ps = T_PARS_TDEV_BCAST \<or> parser_state ps = T_PARS_TDEV_CPU then
           (case skip_word e ''Device:'' of
              None \<Rightarrow> ps
            | Some e \<Rightarrow>
                (case skip_word e ''mode:'' of
                   None \<Rightarrow> ps
                 | Some e \<Rightarrow>
                     (case sscanf_d e of
                        None \<Rightarrow> ps
                      | Some v \<Rightarrow> ps\<lparr>tick_dev_mode := v, parser_state := T_PARS_TDEV\<rparr>)))
         else ps
     | T_TOKEN_BCAST \<Rightarrow>
         if parser_state ps = T_PARS_TDEV then
           (case skip_word e ''device'' of
              None \<Rightarrow> ps
            | Some e \<Rightarrow>
                ps\<lparr>parser_state := T_PARS_TDEV_BCAST, tick_dev_known := TICK_DEV_KNOWN_NONE\<rparr>)
         else ps
     | T_TOKEN_PER \<Rightarrow>
         if parser_state ps = T_PARS_TDEV then
           (case skip_word e ''CPU'' of
              None \<Rightarrow> ps
            | Some e \<Rightarrow>
                (case skip_word e ''device:'' of
                   None \<Rightarrow> ps
                 | Some e \<Rightarrow>
                     (case sscanf_d e of
                        None \<Rightarrow> ps
                      | Some v \<Rightarrow>
                          ps\<lparr>tick_dev_cpu := v, parser_state := T_PARS_TDEV_CPU,
                             tick_dev_known := TICK_DEV_KNOWN_CPU\<rparr>)))
         else ps
     | T_TOKEN_MODE \<Rightarrow>
         if parser_state ps = T_PARS_TDEV_BCAST \<or> parser_state ps = T_PARS_TDEV_CPU then
           (case sscanf_d e of
              None \<Rightarrow> ps
            | Some v \<Rightarrow>
                ps\<lparr>tick_dev_state := v,
                   tick_dev_known := tick_dev_known ps OR TICK_DEV_KNOWN_STATE\<rparr>)
         else ps
     | T_TOKEN_NEXT_EVENT \<Rightarrow>
         if parser_state ps = T_PARS_TDEV_BCAST \<or> parser_state ps = T_PARS_TDEV_CPU then
           (case sscanf_lu e of
              None \<Rightarrow> ps
            | Some v \<Rightarrow>
                ps\<lparr>tick_dev_next_event := v,
                   tick_dev_known := tick_dev_known ps OR TICK_DEV_KNOWN_NEXT_EVENT\<rparr>)
         else ps
     | T_TOKEN_BCAST_MASK \<Rightarrow>
         if parser_state ps = T_PARS_TDEV_BCAST then
           ps\<lparr>tick_dev_cpuset := get_cpuset e,
              tick_dev_known := tick_dev_known ps OR TICK_DEV_KNOWN_BCAST_SET\<rparr>
         else ps
     | T_TOKEN_BCAST_ONESHOT_MASK \<Rightarrow>
         if parser_state ps = T_PARS_TDEV_BCAST then
           ps\<lparr>tick_dev_os_cpuset := get_cpuset e,
              tick_dev_known := tick_dev_known ps OR TICK_DEV_KNOWN_BCAST_OS_SET\<rparr>
         else ps
     | T_TOKEN_NONE \<Rightarrow> ps)"

text \<open>
  The \<^verbatim>\<open>switch (parser_state)\<close> that closes the work on a line: a tick device whose
  attributes are all known is counted.
\<close>

definition tick_dev_active :: "timer_parser \<Rightarrow> bool" where
  "tick_dev_active ps \<longleftrightarrow>
    (tick_dev_state ps = CLOCK_EVT_STATE_PERIODIC \<or> tick_dev_state ps = CLOCK_EVT_STATE_ONESHOT)
    \<and> tick_dev_next_event ps \<noteq> KTIME_MAX"

definition bcast_cpu_step :: "nat \<Rightarrow> timer_parser \<Rightarrow> timer_parser" where
  "bcast_cpu_step cpunum ps =
    (if CPU_ISSET (int cpunum) (tick_dev_cpuset ps) \<or> CPU_ISSET (int cpunum) (tick_dev_os_cpuset ps)
     then count_timer ISOL_TIMER_BTICKDEV (int cpunum) (tick_dev_next_event ps) ps
     else ps)"

definition tick_dev_step :: "timer_parser \<Rightarrow> timer_parser" where
  "tick_dev_step ps =
    (case parser_state ps of
       T_PARS_TDEV_CPU \<Rightarrow>
         (let all_known = TICK_DEV_KNOWN_CPU OR TICK_DEV_KNOWN_STATE OR TICK_DEV_KNOWN_NEXT_EVENT
          in if tick_dev_known ps AND all_known = all_known then
               (if tick_dev_active ps then
                  (count_timer ISOL_TIMER_CPUTICKDEV (tick_dev_cpu ps) (tick_dev_next_event ps) ps)
                    \<lparr>tick_dev_known := TICK_DEV_KNOWN_NONE\<rparr>
                else ps)
             else ps)
     | T_PARS_TDEV_BCAST \<Rightarrow>
         (let all_known = TICK_DEV_KNOWN_STATE OR TICK_DEV_KNOWN_NEXT_EVENT
                            OR TICK_DEV_KNOWN_BCAST_SET OR TICK_DEV_KNOWN_BCAST_OS_SET
          in if tick_dev_known ps AND all_known = all_known then
               (let ps = (if tick_dev_active ps
                             \<and> (CPU_COUNT (tick_dev_cpuset ps) \<noteq> 0
                                \<or> CPU_COUNT (tick_dev_os_cpuset ps) \<noteq> 0)
                          then fold bcast_cpu_step [0 ..< CPU_SETSIZE] ps
                          else ps)
                in ps\<lparr>tick_dev_known := TICK_DEV_KNOWN_NONE\<rparr>)
             else ps)
     | _ \<Rightarrow> ps)"

text \<open>
  The body of the loop over the lines that \<^verbatim>\<open>fgets\<close> returns.  \<^verbatim>\<open>line_token\<close> is the
  first token of the line.
\<close>

definition line_token :: "string \<Rightarrow> string" where
  "line_token line = token_at (skip_whitespace (c_string line))"

definition line_step :: "timer_parser \<Rightarrow> string \<Rightarrow> timer_parser" where
  "line_step ps line =
    (let p = skip_whitespace (c_string line);
         e = find_endtoken p
     in if token_at p \<noteq> [] then
          tick_dev_step
            (if hd p = CHR ''#'' then hash_step ps (tl p)
             else token_step ps (find_token (token_at p) token_timers_list) e)
        else ps)"

text \<open>
  \<^verbatim>\<open>process_all_timers(cpuset, now)\<close>.  The feed is \<^verbatim>\<open>None\<close> when the file cannot be
  opened, and otherwise the lines in the order in which \<^verbatim>\<open>fgets\<close> returns them.  The
  arguments \<^verbatim>\<open>cpuset\<close> and \<^verbatim>\<open>now\<close> are what the two variables of the caller hold before
  the call, and the result holds what they hold after it.
\<close>

record timers_result =
  tr_ret :: int
  tr_cpuset :: cpu_set_t
  tr_now :: s64
  tr_threads :: "memipc_thread_params list"

definition process_all_timers ::
  "string list option \<Rightarrow> cpu_set_t \<Rightarrow> s64 \<Rightarrow> memipc_thread_params list \<Rightarrow> timers_result" where
  "process_all_timers feed cpuset now ths =
    (case feed of
       None \<Rightarrow> \<lparr> tr_ret = - 1, tr_cpuset = cpuset, tr_now = now, tr_threads = ths \<rparr>
     | Some lines \<Rightarrow>
         (let ps = foldl line_step (parser_init ths) lines in
          if now_at ps \<noteq> KTIME_MAX
          then \<lparr> tr_ret = 0, tr_cpuset = cpuset_out ps, tr_now = now_at ps,
                 tr_threads = cpu_remove_expired_timers (now_at ps) (threads_glob ps) \<rparr>
          else \<lparr> tr_ret = 0, tr_cpuset = cpuset_out ps, tr_now = now,
                 tr_threads = threads_glob ps \<rparr>))"

text \<open>
  The value that a line gives to \<^verbatim>\<open>now_at\<close> when it is read in the state
  \<^verbatim>\<open>T_PARS_START\<close>: the case \<^verbatim>\<open>T_TOKEN_NOW\<close> above.
\<close>

definition now_line :: "string \<Rightarrow> s64 option" where
  "now_line line =
    (if line_token line = ''now'' then
       (case skip_word (find_endtoken (skip_whitespace (c_string line))) ''at'' of
          None \<Rightarrow> None
        | Some e \<Rightarrow> sscanf_lu e)
     else None)"

text \<open>The condition of the specification: no line of the feed is a \<^verbatim>\<open>cpu:\<close> header.\<close>

definition no_cpu_header :: "string list \<Rightarrow> bool" where
  "no_cpu_header feed = list_all (\<lambda>line. line_token line \<noteq> ''cpu:'') feed"

text \<open>
  A feed with the time header and one per-CPU tick device, on CPU 1, in one-shot mode with
  an event to come; and a feed with the time header and a high-resolution timer on CPU 1.
\<close>

definition tick_feed :: "string list" where
  "tick_feed =
    [ ''Timer List Version: v0.8\<newline>'',
      ''HRTIMER_MAX_CLOCK_BASES: 4\<newline>'',
      ''now at 100 nsecs\<newline>'',
      ''\<newline>'',
      ''Tick Device: mode:     1\<newline>'',
      ''Per CPU device: 1\<newline>'',
      ''Clock Event Device: arch_sys_timer\<newline>'',
      '' mode:           3\<newline>'',
      '' next_event:     500 nsecs\<newline>'' ]"

definition cpu_feed :: "string list" where
  "cpu_feed =
    [ ''now at 100 nsecs\<newline>'',
      ''cpu: 1\<newline>'',
      '' clock 0:\<newline>'',
      ''active timers:\<newline>'',
      '' #0: <ffff8003fda67bd0>, tick_sched_timer, S:01\<newline>'',
      '' # expires at 700-700 nsecs [in 600 to 600 nsecs]\<newline>'' ]"

text \<open>
  A feed that lacks the time header, and a feed that has nothing but the time header.
\<close>

definition headless_feed :: "string list" where
  "headless_feed =
    [ ''cpu: 1\<newline>'',
      '' .expires_next   : 500 nsecs\<newline>'' ]"

definition now_only_feed :: "string list" where
  "now_only_feed =
    [ ''Timer List Version: v0.8\<newline>'',
      ''now at 100 nsecs\<newline>'',
      ''\<newline>'' ]"

section \<open>Properties of the block encoding\<close>

lemma ex_less_8: "(\<exists>k<8::nat. P k) \<longleftrightarrow> P 0 \<or> P 1 \<or> P 2 \<or> P 3 \<or> P 4 \<or> P 5 \<or> P 6 \<or> P 7"
proof
  assume "\<exists>k<8. P k"
  then obtain k where k: "k < 8" "P k" by blast
  then have "k = 0 \<or> k = 1 \<or> k = 2 \<or> k = 3 \<or> k = 4 \<or> k = 5 \<or> k = 6 \<or> k = 7" by arith
  with k(2) show "P 0 \<or> P 1 \<or> P 2 \<or> P 3 \<or> P 4 \<or> P 5 \<or> P 6 \<or> P 7" by blast
next
  assume "P 0 \<or> P 1 \<or> P 2 \<or> P 3 \<or> P 4 \<or> P 5 \<or> P 6 \<or> P 7"
  then show "\<exists>k<8. P k" by (elim disjE) (rule exI, erule conjI [rotated], simp)+
qed

lemma all_less_8: "(\<forall>k<8::nat. P k) \<longleftrightarrow> P 0 \<and> P 1 \<and> P 2 \<and> P 3 \<and> P 4 \<and> P 5 \<and> P 6 \<and> P 7"
  using ex_less_8 [of "\<lambda>k. \<not> P k"] by blast

lemma lowbit_set: "1 AND (x::u8) \<noteq> 0 \<longleftrightarrow> bit x 0"
  by (simp add: bit_0 odd_iff_mod_2_eq_one one_and_eq)

lemma lowbit_clear: "1 AND (x::u8) \<noteq> 1 \<longleftrightarrow> \<not> bit x 0"
  by (simp add: bit_0 odd_iff_mod_2_eq_one one_and_eq)

lemma block_not_free_iff: "block_not_free m dst \<longleftrightarrow> (\<exists>k<8. bit (m (dst + k)) 0)"
  unfolding block_not_free_def lowbit_set bit_or_iff ex_less_8 by simp

lemma block_not_ready_iff: "block_not_ready m src \<longleftrightarrow> (\<exists>k<8. \<not> bit (m (src + k)) 0)"
  unfolding block_not_ready_def and.assoc lowbit_clear bit_and_iff ex_less_8 by simp

text \<open>
  Claim C2.  A writer that finds any of the eight presence bits of its block set returns
  \<open>-1\<close> and leaves the store as it was; a reader that finds any of the eight presence
  bits of its block clear returns \<open>-1\<close> and leaves the destination (and the header
  results) as they were.  This holds for every store, address, source and size.
\<close>

theorem presence_bit_protocol:
  "((\<exists>k<8. bit (m (dst + k)) 0) \<longrightarrow>
      write_encode_bytes m dst src sz = Some (- 1, m) \<and>
      write_encode_bytes_with_header m dst src sz t msize = Some (- 1, m)) \<and>
   ((\<exists>k<8. \<not> bit (m (s + k)) 0) \<longrightarrow>
      read_decode_bytes out d m s sz = (- 1, out) \<and>
      read_decode_bytes_with_header out d m s sz t0 msize0 = (- 1, out, t0, msize0))"
  by (simp add: block_not_free_iff [symmetric] block_not_ready_iff [symmetric]
      write_encode_bytes_def write_encode_bytes_with_header_def
      read_decode_bytes_def read_decode_bytes_with_header_def)

theorem presence_bit_protocol_witness:
  "write_encode_bytes ((\<lambda>_. 0)(3 := 1)) 0 (\<lambda>_. 5) 7 = Some (- 1, (\<lambda>_. 0)(3 := 1)) \<and>
   write_encode_bytes_with_header ((\<lambda>_. 0)(3 := 1)) 0 (\<lambda>_. 5) 2 6 7 = Some (- 1, (\<lambda>_. 0)(3 := 1)) \<and>
   read_decode_bytes (\<lambda>_. 9) 0 ((\<lambda>_. 1)(2 := 0)) 0 7 = (- 1, (\<lambda>_. 9)) \<and>
   read_decode_bytes_with_header (\<lambda>_. 9) 0 ((\<lambda>_. 1)(2 := 0)) 0 2 4 5 = (- 1, (\<lambda>_. 9), 4, 5)"
proof -
  have w: "\<exists>k<8. bit (((\<lambda>_. 0 :: u8)(3 := 1)) ((0::nat) + k)) 0"
    by (rule exI [of _ "3::nat"]) simp
  have r: "\<exists>k<8. \<not> bit (((\<lambda>_. 1 :: u8)(2 := 0)) ((0::nat) + k)) 0"
    by (rule exI [of _ "2::nat"]) simp
  from w presence_bit_protocol [where m = "(\<lambda>_. 0)(3 := 1)" and dst = 0 and src = "\<lambda>_. 5"
      and sz = 7 and t = 6 and msize = 7]
  have w7: "write_encode_bytes ((\<lambda>_. 0)(3 := 1)) 0 (\<lambda>_. 5) 7 = Some (- 1, (\<lambda>_. 0)(3 := 1))"
    by blast
  from w presence_bit_protocol [where m = "(\<lambda>_. 0)(3 := 1)" and dst = 0 and src = "\<lambda>_. 5"
      and sz = 2 and t = 6 and msize = 7]
  have w2: "write_encode_bytes_with_header ((\<lambda>_. 0)(3 := 1)) 0 (\<lambda>_. 5) 2 6 7
              = Some (- 1, (\<lambda>_. 0)(3 := 1))"
    by blast
  from r presence_bit_protocol [where m = "(\<lambda>_. 1)(2 := 0)" and s = 0 and out = "\<lambda>_. 9"
      and d = 0 and sz = 7 and ?t0.0 = 4 and ?msize0.0 = 5]
  have r7: "read_decode_bytes (\<lambda>_. 9) 0 ((\<lambda>_. 1)(2 := 0)) 0 7 = (- 1, (\<lambda>_. 9))"
    by blast
  from r presence_bit_protocol [where m = "(\<lambda>_. 1)(2 := 0)" and s = 0 and out = "\<lambda>_. 9"
      and d = 0 and sz = 2 and ?t0.0 = 4 and ?msize0.0 = 5]
  have r2: "read_decode_bytes_with_header (\<lambda>_. 9) 0 ((\<lambda>_. 1)(2 := 0)) 0 2 4 5
              = (- 1, (\<lambda>_. 9), 4, 5)"
    by blast
  from w7 w2 r7 r2
  show ?thesis by blast
qed

section \<open>Properties of the ring\<close>

lemma blocks_for_ceil: "blocks_for n = (n + 6) div 7"
  unfolding blocks_for_def SEVEN_def Let_def by (simp add: minus_mult_div_eq_mod) arith

lemma blocks_for_pos: "0 < blocks_for (n + HEADER_SIZE)"
  by (simp add: blocks_for_ceil HEADER_SIZE_def)

lemma add_req_refresh_frame [simp]:
  "area (add_req_refresh m a) = area a"
  "wptr (add_req_refresh m a) = wptr a"
  "size_area (add_req_refresh m a) = size_area a"
  "writer (add_req_refresh m a) = writer a"
  "reader (add_req_refresh m a) = reader a"
  by (simp_all add: add_req_refresh_def split: prod.splits)

lemma add_req_scan_idle:
  "m p AND 1 \<noteq> 0 \<or> n = 0 \<Longrightarrow> add_req_scan m a e p n = (p, n)"
  by (cases n) auto

lemma add_req_refresh_idle:
  "m (rptr a) AND 1 \<noteq> 0 \<or> inbuffer a = 0 \<Longrightarrow> add_req_refresh m a = a"
  by (simp add: add_req_refresh_def add_req_scan_idle)

lemma add_req_scan_inbuffer_le: "snd (add_req_scan m a e p n) \<le> n"
proof (induction n arbitrary: p)
  case 0
  show ?case by simp
next
  case (Suc n)
  show ?case
    using Suc.IH [of a] Suc.IH [of "p + 1"] by (simp add: le_SucI)
qed

lemma add_req_scan_range:
  "a \<le> p \<Longrightarrow> p < e \<Longrightarrow> a \<le> fst (add_req_scan m a e p n) \<and> fst (add_req_scan m a e p n) < e"
  by (induction n arbitrary: p) auto

lemma add_req_refresh_ok: "area_ok a \<Longrightarrow> area_ok (add_req_refresh m a)"
  using add_req_scan_range [of "area a" "rptr a" "area a + size_area a" m "inbuffer a"]
  by (auto simp: area_ok_def add_req_refresh_def split: prod.splits)


lemma get_req_scan_fix:
  "get_req_scan m a e sz p n = (p', n') \<Longrightarrow> get_req_scan m a e sz p' n' = (p', n')"
proof (induction m a e sz p n rule: get_req_scan.induct)
  case (1 m a e sz p n)
  show ?case
  proof (cases "m p AND 1 = 1 \<and> n < sz")
    case True
    with "1.prems" have "get_req_scan m a e sz (if e \<le> p + 1 then a else p + 1) (n + 1) = (p', n')"
      by (subst (asm) get_req_scan.simps) simp
    from "1.IH" [OF True this] show ?thesis .
  next
    case False
    with "1.prems" have "p' = p" "n' = n"
      by (subst (asm) get_req_scan.simps, auto)+
    with False show ?thesis by (subst get_req_scan.simps) auto
  qed
qed

lemma get_req_scan_mono: "n \<le> snd (get_req_scan m a e sz p n)"
proof (induction m a e sz p n rule: get_req_scan.induct)
  case (1 m a e sz p n)
  show ?case
  proof (cases "m p AND 1 = 1 \<and> n < sz")
    case True
    from "1.IH" [OF True] True show ?thesis
      by (subst get_req_scan.simps) auto
  next
    case False
    then show ?thesis by (subst get_req_scan.simps) auto
  qed
qed

lemma get_req_refresh_frame [simp]:
  "area (get_req_refresh m a) = area a"
  "rptr (get_req_refresh m a) = rptr a"
  "size_area (get_req_refresh m a) = size_area a"
  "writer (get_req_refresh m a) = writer a"
  "reader (get_req_refresh m a) = reader a"
  by (simp_all add: get_req_refresh_def split: prod.splits)

lemma get_req_refresh_idem: "get_req_refresh m (get_req_refresh m a) = get_req_refresh m a"
proof -
  obtain p' n' where s: "get_req_scan m (area a) (area a + size_area a) (size_area a) (wptr a) (inbuffer a) = (p', n')"
    by (cases "get_req_scan m (area a) (area a + size_area a) (size_area a) (wptr a) (inbuffer a)")
  from get_req_scan_fix [OF s] s show ?thesis
    by (simp add: get_req_refresh_def)
qed

lemma get_req_refresh_inbuffer: "inbuffer a \<le> inbuffer (get_req_refresh m a)"
  using get_req_scan_mono [of "inbuffer a" m "area a" "area a + size_area a" "size_area a" "wptr a"]
  by (auto simp add: get_req_refresh_def split: prod.splits)

lemma get_req_after_refresh:
  "memipc_get_req my_pid m (get_req_refresh m a) cap out = memipc_get_req my_pid m a cap out
   \<or> reader a \<noteq> my_pid"
  by (simp add: memipc_get_req_def get_req_refresh_idem)

lemma get_req_single_ret: "res_ret (get_req_single m a1 ty ns out0) = 0"
  by (simp add: get_req_single_def Let_def)

lemma get_req_multi_ret:
  "res_ret (get_req_multi m a1 ty tot ns out0) = 0 \<or> res_ret (get_req_multi m a1 ty tot ns out0) = - 1"
  unfolding get_req_multi_def Let_def
  by (simp split: prod.split)

lemma get_req_multi_not_too_large [simp]:
  "res_ret (get_req_multi m a1 ty tot ns out0) \<noteq> - 2"
  using get_req_multi_ret [of m a1 ty tot ns out0] by auto

lemma get_req_body_too_large:
  "res_ret (get_req_body m a1 cap out) = - 2 \<longleftrightarrow>
     EIGHT \<le> inbuffer a1 \<and> \<not> block_not_ready m (rptr a1)
     \<and> nat ((cap + int HEADER_SIZE) mod 2 ^ 64) < unat (decode_msize m (rptr a1))"
  by (auto simp add: get_req_body_def read_decode_bytes_with_header_def Let_def get_req_single_ret)

lemma get_req_body_rejected:
  "res_ret (get_req_body m a1 cap out) = - 2 \<Longrightarrow>
     res_mem (get_req_body m a1 cap out) = m \<and> res_area (get_req_body m a1 cap out) = a1
     \<and> res_size (get_req_body m a1 cap out) = cap \<and> res_type (get_req_body m a1 cap out) = None"
  by (auto simp add: get_req_body_def read_decode_bytes_with_header_def Let_def get_req_single_ret
      split: if_splits)

lemma add_req_scan_consistent:
  assumes "a0 \<le> w" and "w < a0 + s" and "a0 \<le> p" and "p < a0 + s"
    and "p < w \<longrightarrow> n = w - p"
    and "w < p \<longrightarrow> n = s - (p - w)"
    and "w = p \<longrightarrow> n = 0 \<or> n = s"
    and "add_req_scan m a0 (a0 + s) p n = (p', n')"
  shows "(p' < w \<longrightarrow> n' = w - p') \<and> (w < p' \<longrightarrow> n' = s - (p' - w))
       \<and> (w = p' \<longrightarrow> n' = 0 \<or> n' = s)"
  using assms
proof (induction n arbitrary: p)
  case 0
  then show ?case by auto
next
  case (Suc n)
  show ?case
  proof (cases "m p AND 1 = 0")
    case False
    with Suc.prems(8) have "p' = p" "n' = Suc n" by auto
    with Suc.prems show ?thesis by simp
  next
    case True
    let ?q = "if a0 + s \<le> p + 1 then a0 else p + 1"
    from True Suc.prems(8) have sc: "add_req_scan m a0 (a0 + s) ?q n = (p', n')" by simp
    have q1: "a0 \<le> ?q" using Suc.prems(3) by simp
    have q2: "?q < a0 + s" using Suc.prems(1,2) by auto
    have q3: "?q < w \<longrightarrow> n = w - ?q" using Suc.prems(1-7) by (auto split: if_splits)
    have q4: "w < ?q \<longrightarrow> n = s - (?q - w)" using Suc.prems(1-7) by (auto split: if_splits)
    have q5: "w = ?q \<longrightarrow> n = 0 \<or> n = s" using Suc.prems(1-7) by (auto split: if_splits)
    from Suc.IH [OF Suc.prems(1,2) q1 q2 q3 q4 q5 sc] show ?thesis .
  qed
qed

lemma add_req_refresh_consistent:
  assumes "ring_consistent a"
  shows "ring_consistent (add_req_refresh m a)"
proof -
  obtain p' n' where sc: "add_req_scan m (area a) (area a + size_area a) (rptr a) (inbuffer a) = (p', n')"
    by (cases "add_req_scan m (area a) (area a + size_area a) (rptr a) (inbuffer a)")
  then have r: "add_req_refresh m a = a\<lparr>rptr := p', inbuffer := n'\<rparr>"
    by (simp add: add_req_refresh_def)
  from assms have ok: "area_ok a" by (simp add: ring_consistent_def)
  from add_req_refresh_ok [OF ok, of m] have ok': "area_ok (a\<lparr>rptr := p', inbuffer := n'\<rparr>)"
    unfolding r .
  from assms have
    "area a \<le> wptr a" "wptr a < area a + size_area a"
    "area a \<le> rptr a" "rptr a < area a + size_area a"
    "rptr a < wptr a \<longrightarrow> inbuffer a = wptr a - rptr a"
    "wptr a < rptr a \<longrightarrow> inbuffer a = size_area a - (rptr a - wptr a)"
    "wptr a = rptr a \<longrightarrow> inbuffer a = 0 \<or> inbuffer a = size_area a"
    by (simp_all add: ring_consistent_def area_ok_def)
  from add_req_scan_consistent [OF this sc] assms ok' show ?thesis
    unfolding r by (simp add: ring_consistent_def)
qed

lemma blocks_available_free:
  assumes "ring_consistent a" and "inbuffer a \<noteq> size_area a"
  shows "blocks_available a = free_blocks a"
proof -
  from assms(1) have ok: "area a \<le> wptr a" "wptr a < area a + size_area a"
      "area a \<le> rptr a" "rptr a < area a + size_area a"
    and d1: "EIGHT dvd size_area a" and d2: "EIGHT dvd (wptr a - area a)"
    by (simp_all add: ring_consistent_def area_ok_def)
  have d3: "EIGHT dvd (area a + size_area a - wptr a)"
  proof -
    have "area a + size_area a - wptr a = size_area a - (wptr a - area a)"
      using ok by arith
    moreover have "EIGHT dvd (size_area a - (wptr a - area a))"
      using d1 d2 by (rule dvd_diff_nat)
    ultimately show ?thesis by simp
  qed
  show ?thesis
  proof (cases "wptr a < rptr a")
    case True
    with assms(1) have "inbuffer a = size_area a - (rptr a - wptr a)"
      by (simp add: ring_consistent_def)
    moreover have "size_area a - (size_area a - (rptr a - wptr a)) = rptr a - wptr a"
      using ok True by arith
    ultimately show ?thesis
      using True
      by (simp add: blocks_available_def blocks_available_1_def blocks_available_2_def
          free_blocks_def)
  next
    case False
    have "inbuffer a = wptr a - rptr a"
    proof (cases "rptr a < wptr a")
      case True
      with assms(1) show ?thesis by (simp add: ring_consistent_def)
    next
      case F: False
      with False have "wptr a = rptr a" by simp
      with assms show ?thesis by (auto simp: ring_consistent_def)
    qed
    then have "size_area a - inbuffer a = (area a + size_area a - wptr a) + (rptr a - area a)"
      using ok False by arith
    then have "free_blocks a = ((area a + size_area a - wptr a) + (rptr a - area a)) div EIGHT"
      by (simp add: free_blocks_def)
    also have "\<dots> = (area a + size_area a - wptr a) div EIGHT + (rptr a - area a) div EIGHT"
      using d3 by (rule div_plus_div_distrib_dvd_left)
    finally show ?thesis
      using False
      by (simp add: blocks_available_def blocks_available_1_def blocks_available_2_def)
  qed
qed

lemma free_blocks_full:
  "inbuffer a = size_area a \<Longrightarrow> free_blocks a = 0"
  by (simp add: free_blocks_def)

text \<open>
  The agreement of count and pointers is an invariant of the writer's side: it holds for a
  fresh descriptor, and whatever \<open>memipc_add_req\<close> returns, the descriptor it leaves
  agrees with itself again.
\<close>

lemma put_front_nat:
  fixes A W R S I n :: nat
  assumes "A \<le> W" "W < A + S" "A \<le> R" "R < A + S" "8 dvd S" "8 dvd (W - A)"
    and "R < W \<longrightarrow> I = W - R" "W < R \<longrightarrow> I = S - (R - W)" "W = R \<longrightarrow> I = 0 \<or> I = S" "I \<noteq> S"
    and "W < R \<longrightarrow> n * 8 \<le> R - W" "\<not> W < R \<longrightarrow> n * 8 \<le> A + S - W"
    and "W' = (if A + S \<le> W + n * 8 then A else W + n * 8)"
  shows "A \<le> W' \<and> W' < A + S \<and> 8 dvd (W' - A)
       \<and> (R < W' \<longrightarrow> I + n * 8 = W' - R)
       \<and> (W' < R \<longrightarrow> I + n * 8 = S - (R - W'))
       \<and> (W' = R \<longrightarrow> I + n * 8 = 0 \<or> I + n * 8 = S)"
proof -
  from assms(6) obtain w where w: "W - A = 8 * w" by (auto simp: dvd_def)
  from assms(5) obtain s where s: "S = 8 * s" by (auto simp: dvd_def)
  have Wv: "W = A + 8 * w" using w assms(1) by arith
  show ?thesis
  proof (cases "W < R")
    case True
    with assms(11) have b: "n * 8 \<le> R - W" by simp
    with True assms(4) have W': "W' = W + n * 8" using assms(13) by auto
    have d: "8 dvd (W' - A)" unfolding W' Wv by simp
    from True b assms(1-4) assms(8) d show ?thesis unfolding W' by auto
  next
    case False
    with assms(12) have b: "n * 8 \<le> A + S - W" by simp
    from False assms(7,9,10) have i: "I = W - R" by auto
    show ?thesis
    proof (cases "A + S \<le> W + n * 8")
      case True
      with b assms(2) have e: "W + n * 8 = A + S" by arith
      from True have W': "W' = A" using assms(13) by simp
      from e i False assms(1-4) show ?thesis unfolding W' by auto
    next
      case F: False
      then have W': "W' = W + n * 8" using assms(13) by simp
      have d: "8 dvd (W' - A)" unfolding W' Wv by simp
      from F i False assms(1-4) d show ?thesis unfolding W' by auto
    qed
  qed
qed

lemma put_wrap_nat:
  fixes A W R S I n b1 :: nat
  assumes "A \<le> W" "W < A + S" "A \<le> R" "R < A + S" "8 dvd S" "8 dvd (W - A)"
    and "R < W \<longrightarrow> I = W - R" "W = R \<longrightarrow> I = 0 \<or> I = S" "I \<noteq> S"
    and "\<not> W < R" "b1 = (A + S - W) div 8" "b1 < n" "n - b1 \<le> (R - A) div 8"
    and "W' = A + (n - b1) * 8"
  shows "A \<le> W' \<and> W' < A + S \<and> 8 dvd (W' - A)
       \<and> (R < W' \<longrightarrow> I + n * 8 = W' - R)
       \<and> (W' < R \<longrightarrow> I + n * 8 = S - (R - W'))
       \<and> (W' = R \<longrightarrow> I + n * 8 = 0 \<or> I + n * 8 = S)"
proof -
  from assms(6) obtain w where w: "W - A = 8 * w" by (auto simp: dvd_def)
  from assms(5) obtain s where s: "S = 8 * s" by (auto simp: dvd_def)
  have Wv: "W = A + 8 * w" using w assms(1) by arith
  have "A + S - W = 8 * (s - w)" unfolding Wv s by (simp add: right_diff_distrib')
  then have b1: "b1 * 8 = A + S - W" using assms(11) by simp
  from assms(13) have b2: "(n - b1) * 8 \<le> R - A" by arith
  have n: "n * 8 = b1 * 8 + (n - b1) * 8" using assms(12) by (simp add: algebra_simps)
  from assms(7,8,9,10) have i: "I = W - R" by auto
  have d: "8 dvd (W' - A)" unfolding assms(14) by simp
  have le: "W' \<le> R" unfolding assms(14) using b2 assms(3) by arith
  have t: "I + n * 8 = S - (R - W')"
    unfolding i n b1 assms(14) using assms(1-4,10) b2 by arith
  from le t d assms(3,4) show ?thesis unfolding assms(14) by auto
qed

lemma memipc_area_create_consistent:
  "0 < sz \<Longrightarrow> EIGHT dvd sz \<Longrightarrow> ring_consistent (memipc_area_create sz p)"
  by (simp add: ring_consistent_def memipc_area_create_def area_ok_def)

lemma put_consistent_front:
  assumes c: "ring_consistent a" and nf: "inbuffer a \<noteq> size_area a"
    and fr: "\<not> blocks_available_1 a < bc"
  shows "ring_consistent (a\<lparr>inbuffer := inbuffer a + bc * EIGHT,
           wptr := (if area a + size_area a \<le> wptr a + bc * EIGHT then area a
                    else wptr a + bc * EIGHT)\<rparr>)"
proof -
  from c have f: "area a \<le> wptr a" "wptr a < area a + size_area a"
      "area a \<le> rptr a" "rptr a < area a + size_area a"
      "8 dvd size_area a" "8 dvd (wptr a - area a)"
      "rptr a < wptr a \<longrightarrow> inbuffer a = wptr a - rptr a"
      "wptr a < rptr a \<longrightarrow> inbuffer a = size_area a - (rptr a - wptr a)"
      "wptr a = rptr a \<longrightarrow> inbuffer a = 0 \<or> inbuffer a = size_area a"
    by (simp_all add: ring_consistent_def area_ok_def EIGHT_def)
  have b1: "wptr a < rptr a \<longrightarrow> bc * 8 \<le> rptr a - wptr a"
  proof
    assume "wptr a < rptr a"
    with fr have "bc \<le> (rptr a - wptr a) div 8"
      by (simp add: blocks_available_1_def EIGHT_def)
    then show "bc * 8 \<le> rptr a - wptr a" by arith
  qed
  have b2: "\<not> wptr a < rptr a \<longrightarrow> bc * 8 \<le> area a + size_area a - wptr a"
  proof
    assume "\<not> wptr a < rptr a"
    with fr have "bc \<le> (area a + size_area a - wptr a) div 8"
      by (simp add: blocks_available_1_def EIGHT_def)
    then show "bc * 8 \<le> area a + size_area a - wptr a" by arith
  qed
  from put_front_nat [OF f nf b1 b2 refl] f(3,4,5) show ?thesis
    unfolding ring_consistent_def area_ok_def EIGHT_def by simp
qed

lemma put_consistent_wrap:
  assumes c: "ring_consistent a" and nf: "inbuffer a \<noteq> size_area a"
    and en: "\<not> blocks_available a < bc" and fr: "blocks_available_1 a < bc"
  shows "ring_consistent (a\<lparr>inbuffer := inbuffer a + bc * EIGHT,
           wptr := area a + (bc - blocks_available_1 a) * EIGHT\<rparr>)"
proof -
  from c have f: "area a \<le> wptr a" "wptr a < area a + size_area a"
      "area a \<le> rptr a" "rptr a < area a + size_area a"
      "8 dvd size_area a" "8 dvd (wptr a - area a)"
      "rptr a < wptr a \<longrightarrow> inbuffer a = wptr a - rptr a"
      "wptr a = rptr a \<longrightarrow> inbuffer a = 0 \<or> inbuffer a = size_area a"
    by (simp_all add: ring_consistent_def area_ok_def EIGHT_def)
  have nw: "\<not> wptr a < rptr a"
  proof
    assume "wptr a < rptr a"
    then have "blocks_available a = blocks_available_1 a"
      by (simp add: blocks_available_def blocks_available_2_def)
    with en fr show False by simp
  qed
  then have b1: "blocks_available_1 a = (area a + size_area a - wptr a) div 8"
    by (simp add: blocks_available_1_def EIGHT_def)
  from nw en have b2: "bc - blocks_available_1 a \<le> (rptr a - area a) div 8"
    by (simp add: blocks_available_def blocks_available_2_def EIGHT_def)
  from put_wrap_nat [OF f nf nw b1 fr b2 refl] f(3,4,5) show ?thesis
    unfolding ring_consistent_def area_ok_def EIGHT_def by simp
qed

lemma memipc_add_req_trace_area:
  assumes "memipc_add_req_trace my_pid m a t d = Some (r, m', a', tr)"
  shows "a' = a \<or> a' = add_req_refresh m a
       \<or> (inbuffer (add_req_refresh m a) \<noteq> size_area (add_req_refresh m a)
           \<and> \<not> blocks_available (add_req_refresh m a) < blocks_for (length d + HEADER_SIZE)
           \<and> ((blocks_available_1 (add_req_refresh m a) < blocks_for (length d + HEADER_SIZE)
                \<and> a' = (add_req_refresh m a)
                     \<lparr>inbuffer := inbuffer (add_req_refresh m a)
                                    + blocks_for (length d + HEADER_SIZE) * EIGHT,
                      wptr := area (add_req_refresh m a)
                                + (blocks_for (length d + HEADER_SIZE)
                                    - blocks_available_1 (add_req_refresh m a)) * EIGHT\<rparr>)
              \<or> (\<not> blocks_available_1 (add_req_refresh m a) < blocks_for (length d + HEADER_SIZE)
                \<and> a' = (add_req_refresh m a)
                     \<lparr>inbuffer := inbuffer (add_req_refresh m a)
                                    + blocks_for (length d + HEADER_SIZE) * EIGHT,
                      wptr := (if area (add_req_refresh m a) + size_area (add_req_refresh m a)
                                   \<le> wptr (add_req_refresh m a)
                                       + blocks_for (length d + HEADER_SIZE) * EIGHT
                               then area (add_req_refresh m a)
                               else wptr (add_req_refresh m a)
                                      + blocks_for (length d + HEADER_SIZE) * EIGHT)\<rparr>)))"
  using assms unfolding memipc_add_req_trace_def Let_def
  by (auto split: if_splits option.splits prod.splits)

lemma memipc_add_req_consistent:
  assumes c: "ring_consistent a" and r: "memipc_add_req my_pid m a t d = Some (r, m', a')"
  shows "ring_consistent a'"
proof -
  from r obtain tr where "memipc_add_req_trace my_pid m a t d = Some (r, m', a', tr)"
    by (auto simp: memipc_add_req_def)
  from memipc_add_req_trace_area [OF this] c add_req_refresh_consistent [OF c, of m]
    put_consistent_wrap [of "add_req_refresh m a" "blocks_for (length d + HEADER_SIZE)"]
    put_consistent_front [of "add_req_refresh m a" "blocks_for (length d + HEADER_SIZE)"]
  show ?thesis by blast
qed

text \<open>
  Claim C4, as amended.  The block count is \<open>ceil((5 + L) / 7)\<close>.  Take a writer's
  descriptor whose count agrees with its pointers, and let the entry scan refresh it over
  the bytes the reader has cleared.  The two tests of the code together, the ring being
  full or the free blocks counted in front of and behind the wrap being too few, say
  exactly that the free blocks of the refreshed descriptor are fewer than the block count.
  Whenever they are fewer, a full ring included, the call returns \<open>-1\<close>; the shared store
  is unchanged and so are \<open>wptr\<close>, the area bounds and the owner fields; \<open>rptr\<close> and
  \<open>inbuffer\<close> hold what the scan found, \<open>inbuffer\<close> has not grown, the descriptor
  still agrees with itself, and the whole descriptor is unchanged when the scan finds
  nothing (the byte at \<open>rptr\<close> still carries its presence bit, or \<open>inbuffer\<close> is zero).
\<close>

theorem add_req_would_block:
  assumes "writer a = my_pid" and "ring_consistent a"
    and "free_blocks (add_req_refresh m a) < (length req_data + 5 + 6) div 7"
  shows "blocks_for (length req_data + HEADER_SIZE) = (length req_data + 5 + 6) div 7
       \<and> (inbuffer (add_req_refresh m a) = size_area (add_req_refresh m a)
            \<or> blocks_available (add_req_refresh m a) < blocks_for (length req_data + HEADER_SIZE))
       \<and> memipc_add_req my_pid m a req_type req_data = Some (- 1, m, add_req_refresh m a)
       \<and> add_req_refresh m a = a\<lparr>rptr := rptr (add_req_refresh m a),
                                   inbuffer := inbuffer (add_req_refresh m a)\<rparr>
       \<and> inbuffer (add_req_refresh m a) \<le> inbuffer a
       \<and> ring_consistent (add_req_refresh m a)
       \<and> (m (rptr a) AND 1 \<noteq> 0 \<or> inbuffer a = 0 \<longrightarrow> add_req_refresh m a = a)"
proof -
  let ?a1 = "add_req_refresh m a"
  have bf: "blocks_for (length req_data + HEADER_SIZE) = (length req_data + 5 + 6) div 7"
    by (simp add: blocks_for_ceil HEADER_SIZE_def)
  have c1: "ring_consistent ?a1"
    using assms(2) by (rule add_req_refresh_consistent)
  have tests: "inbuffer ?a1 = size_area ?a1
      \<or> blocks_available ?a1 < blocks_for (length req_data + HEADER_SIZE)"
  proof (cases "inbuffer ?a1 = size_area ?a1")
    case True
    then show ?thesis ..
  next
    case False
    with c1 have "blocks_available ?a1 = free_blocks ?a1" by (rule blocks_available_free)
    with assms(3) bf show ?thesis by simp
  qed
  have res: "memipc_add_req my_pid m a req_type req_data = Some (- 1, m, ?a1)"
    using assms(1) tests
    by (auto simp add: memipc_add_req_def memipc_add_req_trace_def Let_def)
  have shape: "?a1 = a\<lparr>rptr := rptr ?a1, inbuffer := inbuffer ?a1\<rparr>"
    by (simp add: add_req_refresh_def split: prod.splits)
  have le: "inbuffer ?a1 \<le> inbuffer a"
    using add_req_scan_inbuffer_le [of m "area a" "area a + size_area a" "rptr a" "inbuffer a"]
    by (auto simp add: add_req_refresh_def split: prod.splits)
  from bf tests res shape le c1 add_req_refresh_idle
  show ?thesis by blast
qed

text \<open>
  The converse of the test: on such a descriptor, when the free blocks are enough, neither
  test of the code fires.
\<close>

lemma add_req_tests_free:
  assumes "ring_consistent a"
  shows "(inbuffer (add_req_refresh m a) = size_area (add_req_refresh m a)
            \<or> blocks_available (add_req_refresh m a) < blocks_for (length req_data + HEADER_SIZE))
         \<longleftrightarrow> free_blocks (add_req_refresh m a) < blocks_for (length req_data + HEADER_SIZE)"
proof (cases "inbuffer (add_req_refresh m a) = size_area (add_req_refresh m a)")
  case True
  then have "free_blocks (add_req_refresh m a) = 0" by (rule free_blocks_full)
  with True blocks_for_pos [of "length req_data"] show ?thesis by simp
next
  case False
  have "ring_consistent (add_req_refresh m a)"
    using assms by (rule add_req_refresh_consistent)
  then have "blocks_available (add_req_refresh m a) = free_blocks (add_req_refresh m a)"
    using False by (rule blocks_available_free)
  with False show ?thesis by simp
qed

lemma ring16_refresh:
  "add_req_refresh zero_mem ring16 = ring16\<lparr>rptr := 8, inbuffer := 0\<rparr>"
  by (simp add: add_req_refresh_def ring16_def zero_mem_def eval_nat_numeral)

lemma full16_refresh:
  "add_req_refresh ones_mem full16 = full16"
  by (rule add_req_refresh_idle) (simp add: ones_mem_def)

theorem add_req_would_block_witness:
  "memipc_add_req 1 zero_mem ring16 MEMIPC_REQ_PRINT (replicate 20 0)
     = Some (- 1, zero_mem, add_req_refresh zero_mem ring16)
   \<and> free_blocks full16 = 0
   \<and> blocks_available full16 = 2
   \<and> memipc_add_req 1 ones_mem full16 MEMIPC_REQ_PING [] = Some (- 1, ones_mem, full16)"
proof -
  have 1: "writer ring16 = 1" by (simp add: ring16_def)
  have 2: "ring_consistent ring16"
    by (simp add: ring16_def ring_consistent_def area_ok_def EIGHT_def)
  have 3: "free_blocks (add_req_refresh zero_mem ring16) < (length (replicate 20 (0::u8)) + 5 + 6) div 7"
    unfolding ring16_refresh by (simp add: free_blocks_def ring16_def EIGHT_def)
  have 4: "writer full16 = 1" by (simp add: full16_def)
  have 5: "ring_consistent full16"
    by (simp add: full16_def ring_consistent_def area_ok_def EIGHT_def)
  have f: "free_blocks full16 = 0" by (simp add: free_blocks_def full16_def)
  have b: "blocks_available full16 = 2"
    by (simp add: blocks_available_def blocks_available_1_def blocks_available_2_def
        full16_def EIGHT_def)
  have 6: "free_blocks (add_req_refresh ones_mem full16) < (length ([] :: u8 list) + 5 + 6) div 7"
    unfolding full16_refresh f by simp
  from add_req_would_block [OF 1 2 3, of MEMIPC_REQ_PRINT]
  have r1: "memipc_add_req 1 zero_mem ring16 MEMIPC_REQ_PRINT (replicate 20 0)
     = Some (- 1, zero_mem, add_req_refresh zero_mem ring16)" by blast
  from add_req_would_block [OF 4 5 6, of MEMIPC_REQ_PING]
  have r2: "memipc_add_req 1 ones_mem full16 MEMIPC_REQ_PING []
     = Some (- 1, ones_mem, add_req_refresh ones_mem full16)" by blast
  from r1 r2 f b show ?thesis unfolding full16_refresh by simp
qed

theorem add_req_would_block_counterexample:
  "memipc_add_req 1 zero_mem ring16 MEMIPC_REQ_PRINT (replicate 20 0)
     = Some (- 1, zero_mem, ring16\<lparr>rptr := 8, inbuffer := 0\<rparr>)
   \<and> ring16\<lparr>rptr := 8, inbuffer := 0\<rparr> \<noteq> ring16"
  by (simp add: memipc_add_req_def memipc_add_req_trace_def ring16_refresh Let_def
      blocks_available_def blocks_available_1_def blocks_available_2_def blocks_for_ceil
      HEADER_SIZE_def EIGHT_def)
    (simp add: ring16_def)

text \<open>The write order of one loop: blocks from the highest index down to index 0.\<close>

lemma add_req_write_order:
  "add_req_write base skip t d n m tr0 = Some (0, m', tr) \<Longrightarrow>
     tr = tr0 @ map (\<lambda>j. if 1 \<le> skip + j then DataBlock (base + j * EIGHT)
                           else HeaderBlock (base + j * EIGHT)) (rev [0..<n])"
proof (induction n arbitrary: m tr0)
  case 0
  then show ?case by simp
next
  case (Suc n)
  from Suc.prems obtain m1 where
    rec: "add_req_write base skip t d n m1
            (tr0 @ [if SEVEN \<le> skip * SEVEN + Suc n * SEVEN - HEADER_SIZE
                    then DataBlock (base + n * EIGHT) else HeaderBlock (base + n * EIGHT)])
          = Some (0, m', tr)"
    by (auto simp: Let_def split: option.splits if_splits)
  have "(SEVEN \<le> skip * SEVEN + Suc n * SEVEN - HEADER_SIZE) = (1 \<le> skip + n)"
    by (auto simp: SEVEN_def HEADER_SIZE_def)
  with Suc.IH [OF rec] show ?case by simp
qed

lemma add_req_write_order_data:
  assumes "add_req_write base skip t d n m tr0 = Some (0, m', tr)" and "1 \<le> skip"
  shows "tr = tr0 @ map DataBlock (map (\<lambda>j. base + j * EIGHT) (rev [0..<n]))"
  using add_req_write_order [OF assms(1)] assms(2) by (simp add: comp_def)

lemma add_req_write_order_header:
  assumes "add_req_write base 0 t d (Suc n) m tr0 = Some (0, m', tr)"
  shows "tr = tr0 @ map DataBlock (map (\<lambda>j. base + j * EIGHT) (rev [1..<Suc n]))
               @ [HeaderBlock base]"
proof -
  have "rev [0..<Suc n] = rev [1..<Suc n] @ [0]"
    by (metis One_nat_def rev.simps(2) rev_rev_ident upt_conv_Cons zero_less_Suc rev.simps(1) append_Nil rev_append)
  then show ?thesis
    using add_req_write_order [OF assms] by (simp add: comp_def)
qed

text \<open>
  The block writes of a successful call.  \<open>blocks_write\<close> is the number of blocks that go
  in front of the wrap-around, the smaller of \<open>blocks_available_1\<close> and the block count.
\<close>

lemma add_req_write_order_full:
  assumes "memipc_add_req_trace my_pid m a req_type req_data = Some (0, m', a', tr)"
    and "wptr a + EIGHT \<le> area a + size_area a"
  shows "tr = map (\<lambda>j. DataBlock (area a + j * EIGHT))
                (rev [0..<blocks_for (length req_data + HEADER_SIZE)
                           - min (blocks_available_1 (add_req_refresh m a))
                               (blocks_for (length req_data + HEADER_SIZE))])
              @ map (\<lambda>j. DataBlock (wptr a + j * EIGHT))
                  (rev [1..<min (blocks_available_1 (add_req_refresh m a))
                               (blocks_for (length req_data + HEADER_SIZE))])
              @ [HeaderBlock (wptr a)]
       \<and> 1 \<le> min (blocks_available_1 (add_req_refresh m a))
                 (blocks_for (length req_data + HEADER_SIZE))"
proof -
  let ?a1 = "add_req_refresh m a"
  let ?bc = "blocks_for (length req_data + HEADER_SIZE)"
  let ?b1 = "blocks_available_1 ?a1"
  from assms(1) have w: "writer a = my_pid"
    by (auto simp: memipc_add_req_trace_def split: if_splits)
  from assms(1) w have nf: "inbuffer ?a1 \<noteq> size_area ?a1" and en: "\<not> blocks_available ?a1 < ?bc"
    by (auto simp: memipc_add_req_trace_def Let_def split: if_splits)
  obtain k where k: "?bc = Suc k"
    using blocks_for_pos [of "length req_data"] by (cases ?bc) auto
  show ?thesis
  proof (cases "?b1 < ?bc")
    case False
    then have mn: "min ?b1 ?bc = ?bc" by simp
    from False assms(1) w nf en obtain m1 where
      "add_req_write (wptr a) 0 req_type req_data ?bc m [] = Some (0, m1, tr)"
      by (auto simp: memipc_add_req_trace_def Let_def split: if_splits option.splits)
    then have "add_req_write (wptr a) 0 req_type req_data (Suc k) m [] = Some (0, m1, tr)"
      by (simp add: k)
    from add_req_write_order_header [OF this] show ?thesis
      unfolding mn by (simp add: k comp_def)
  next
    case True
    then have mn: "min ?b1 ?bc = ?b1" by simp
    have b1pos: "1 \<le> ?b1"
    proof (cases "wptr ?a1 < rptr ?a1")
      case True
      then have "blocks_available ?a1 = ?b1"
        by (simp add: blocks_available_def blocks_available_2_def)
      with en \<open>?b1 < ?bc\<close> show ?thesis by simp
    next
      case False
      then have "?b1 = (area a + size_area a - wptr a) div EIGHT"
        by (simp add: blocks_available_1_def)
      moreover have "EIGHT \<le> area a + size_area a - wptr a" using assms(2) by simp
      ultimately show ?thesis by (simp add: EIGHT_def Suc_le_eq div_greater_zero_iff)
    qed
    then obtain j where j: "?b1 = Suc j" by (cases ?b1) auto
    from assms(1) w nf en True obtain m1 tr1 m2 where
      w1: "add_req_write (area a) ?b1 req_type req_data (?bc - ?b1) m [] = Some (0, m1, tr1)"
      and w2: "add_req_write (wptr a) 0 req_type req_data ?b1 m1 tr1 = Some (0, m2, tr)"
      by (auto simp: memipc_add_req_trace_def Let_def split: if_splits option.splits)
    from add_req_write_order_data [OF w1 b1pos]
    have t1: "tr1 = map (\<lambda>j. DataBlock (area a + j * EIGHT)) (rev [0..<?bc - ?b1])"
      by (simp add: comp_def)
    from w2 have "add_req_write (wptr a) 0 req_type req_data (Suc j) m1 tr1 = Some (0, m2, tr)"
      by (simp add: j)
    from add_req_write_order_header [OF this]
    have "tr = tr1 @ map (\<lambda>j. DataBlock (wptr a + j * EIGHT)) (rev [1..<Suc j])
                 @ [HeaderBlock (wptr a)]"
      by (simp add: comp_def)
    with t1 b1pos show ?thesis
      unfolding mn by (simp add: j)
  qed
qed

text \<open>
  Claim C6, as amended.  On every successful enqueue the block writes are, in this order:
  the data blocks after the wrap-around, from the highest address down to the start of the
  area; then the data blocks in front of the wrap-around, from the highest address down to
  the block after \<open>wptr\<close>; and last of all the header block, at \<open>wptr\<close>.  At least one
  block lies in front of the wrap-around, and the number of writes is the block count.
\<close>

theorem add_req_header_last:
  assumes "add_req_status (memipc_add_req_trace my_pid m a req_type req_data) = Some 0"
    and "wptr a + EIGHT \<le> area a + size_area a"
  shows "add_req_order (memipc_add_req_trace my_pid m a req_type req_data)
           = Some (map (\<lambda>j. DataBlock (area a + j * EIGHT))
                     (rev [0..<blocks_for (length req_data + HEADER_SIZE)
                                - min (blocks_available_1 (add_req_refresh m a))
                                    (blocks_for (length req_data + HEADER_SIZE))])
                   @ map (\<lambda>j. DataBlock (wptr a + j * EIGHT))
                       (rev [1..<min (blocks_available_1 (add_req_refresh m a))
                                    (blocks_for (length req_data + HEADER_SIZE))])
                   @ [HeaderBlock (wptr a)])
       \<and> 1 \<le> min (blocks_available_1 (add_req_refresh m a))
                 (blocks_for (length req_data + HEADER_SIZE))
       \<and> map_option length (add_req_order (memipc_add_req_trace my_pid m a req_type req_data))
           = Some (blocks_for (length req_data + HEADER_SIZE))"
proof -
  let ?bc = "blocks_for (length req_data + HEADER_SIZE)"
  let ?bw = "min (blocks_available_1 (add_req_refresh m a)) ?bc"
  from assms(1) obtain m' a' tr where
    r: "memipc_add_req_trace my_pid m a req_type req_data = Some (0, m', a', tr)"
    by (cases "memipc_add_req_trace my_pid m a req_type req_data")
       (auto simp: add_req_status_def)
  from add_req_write_order_full [OF r assms(2)] have
    t: "tr = map (\<lambda>j. DataBlock (area a + j * EIGHT)) (rev [0..<?bc - ?bw])
              @ map (\<lambda>j. DataBlock (wptr a + j * EIGHT)) (rev [1..<?bw])
              @ [HeaderBlock (wptr a)]"
    and p: "1 \<le> ?bw" by simp_all
  have o: "add_req_order (memipc_add_req_trace my_pid m a req_type req_data) = Some tr"
    by (simp add: r add_req_order_def)
  have "length tr = (?bc - ?bw) + (?bw - 1) + 1"
    by (subst t) simp
  also have "\<dots> = ?bc" using p by simp
  finally have l: "length tr = ?bc" .
  from t p l show ?thesis unfolding o by simp
qed

theorem add_req_header_last_witness:
  "add_req_order (memipc_add_req_trace 1 wrap_mem ring32_wrap MEMIPC_REQ_PRINT
      [1, 2, 3, 4, 5, 6, 7, 8, 9, 10]) = Some [DataBlock 8, DataBlock 0, HeaderBlock 24]
   \<and> add_req_order (memipc_add_req_trace 1 zero_mem ring32 MEMIPC_REQ_PRINT
      [1, 2, 3, 4, 5, 6, 7, 8, 9, 10, 11, 12, 13, 14, 15, 16])
       = Some [DataBlock 16, DataBlock 8, HeaderBlock 0]"
proof -
  let ?d = "[1, 2, 3, 4, 5, 6, 7, 8, 9, 10] :: u8 list"
  let ?e = "[1, 2, 3, 4, 5, 6, 7, 8, 9, 10, 11, 12, 13, 14, 15, 16] :: u8 list"
  have 1: "add_req_status (memipc_add_req_trace 1 wrap_mem ring32_wrap MEMIPC_REQ_PRINT ?d) = Some 0"
    by code_simp
  have 2: "wptr ring32_wrap + EIGHT \<le> area ring32_wrap + size_area ring32_wrap"
    by (simp add: ring32_wrap_def EIGHT_def)
  have 3: "map (\<lambda>j. DataBlock (area ring32_wrap + j * EIGHT))
                     (rev [0..<blocks_for (length ?d + HEADER_SIZE)
                                - min (blocks_available_1 (add_req_refresh wrap_mem ring32_wrap))
                                    (blocks_for (length ?d + HEADER_SIZE))])
                   @ map (\<lambda>j. DataBlock (wptr ring32_wrap + j * EIGHT))
                       (rev [1..<min (blocks_available_1 (add_req_refresh wrap_mem ring32_wrap))
                                    (blocks_for (length ?d + HEADER_SIZE))])
                   @ [HeaderBlock (wptr ring32_wrap)]
          = [DataBlock 8, DataBlock 0, HeaderBlock 24]"
    by code_simp
  have 4: "add_req_status (memipc_add_req_trace 1 zero_mem ring32 MEMIPC_REQ_PRINT ?e) = Some 0"
    by code_simp
  have 5: "wptr ring32 + EIGHT \<le> area ring32 + size_area ring32"
    by (simp add: ring32_def EIGHT_def)
  have 6: "map (\<lambda>j. DataBlock (area ring32 + j * EIGHT))
                     (rev [0..<blocks_for (length ?e + HEADER_SIZE)
                                - min (blocks_available_1 (add_req_refresh zero_mem ring32))
                                    (blocks_for (length ?e + HEADER_SIZE))])
                   @ map (\<lambda>j. DataBlock (wptr ring32 + j * EIGHT))
                       (rev [1..<min (blocks_available_1 (add_req_refresh zero_mem ring32))
                                    (blocks_for (length ?e + HEADER_SIZE))])
                   @ [HeaderBlock (wptr ring32)]
          = [DataBlock 16, DataBlock 8, HeaderBlock 0]"
    by code_simp
  from add_req_header_last [OF 1 2]
  have r1: "add_req_order (memipc_add_req_trace 1 wrap_mem ring32_wrap MEMIPC_REQ_PRINT ?d)
      = Some [DataBlock 8, DataBlock 0, HeaderBlock 24]"
    unfolding 3 by (rule conjunct1)
  from add_req_header_last [OF 4 5]
  have r2: "add_req_order (memipc_add_req_trace 1 zero_mem ring32 MEMIPC_REQ_PRINT ?e)
      = Some [DataBlock 16, DataBlock 8, HeaderBlock 0]"
    unfolding 6 by (rule conjunct1)
  from r1 r2 show ?thesis ..
qed

theorem add_req_header_first_counterexample:
  "add_req_status (memipc_add_req_trace 1 zero_mem ring32 MEMIPC_REQ_PRINT
      [1, 2, 3, 4, 5, 6, 7, 8, 9, 10]) = Some 0
   \<and> add_req_order (memipc_add_req_trace 1 zero_mem ring32 MEMIPC_REQ_PRINT
      [1, 2, 3, 4, 5, 6, 7, 8, 9, 10]) = Some [DataBlock 16, DataBlock 8, HeaderBlock 0]"
  by code_simp

text \<open>
  Claim C5, as amended.  For a call by the reader with a capacity that is a non-negative
  \<open>ssize_t\<close>: the result is \<open>-2\<close> exactly when a header block is there to be read (at
  least eight bytes counted, the block at \<open>rptr\<close> ready) and the capacity plus the
  five header bytes is less than the total size in that header.  On that result the
  shared store is unchanged (no presence bit cleared), \<open>rptr\<close> is unchanged, \<open>inbuffer\<close>
  is not reduced, the descriptor is the one the entry scan stored, and every later call on
  the state left behind returns what it would have returned on the state before.
\<close>

theorem get_req_too_large:
  assumes "reader a = my_pid" and "0 \<le> cap" and "cap < 2 ^ 63"
  shows "(res_ret (memipc_get_req my_pid m a cap out) = - 2 \<longleftrightarrow>
            EIGHT \<le> inbuffer (get_req_refresh m a) \<and> \<not> block_not_ready m (rptr a)
            \<and> cap + 5 < int (unat (decode_msize m (rptr a))))
       \<and> (res_ret (memipc_get_req my_pid m a cap out) = - 2 \<longrightarrow>
            res_mem (memipc_get_req my_pid m a cap out) = m
            \<and> res_area (memipc_get_req my_pid m a cap out) = get_req_refresh m a
            \<and> rptr (res_area (memipc_get_req my_pid m a cap out)) = rptr a
            \<and> inbuffer a \<le> inbuffer (res_area (memipc_get_req my_pid m a cap out))
            \<and> (\<forall>cap' out'.
                  memipc_get_req my_pid (res_mem (memipc_get_req my_pid m a cap out))
                    (res_area (memipc_get_req my_pid m a cap out)) cap' out'
                  = memipc_get_req my_pid m a cap' out'))"
proof -
  have g: "memipc_get_req my_pid m a cap out = get_req_body m (get_req_refresh m a) cap out"
    using assms(1) by (simp add: memipc_get_req_def)
  have c: "nat ((cap + int HEADER_SIZE) mod 2 ^ 64) < n \<longleftrightarrow> cap + 5 < int n" for n
  proof -
    have "(cap + 5) mod 2 ^ 64 = cap + 5"
      using assms(2,3) by (intro mod_pos_pos_trivial) auto
    then show ?thesis using assms(2) by (auto simp: HEADER_SIZE_def)
  qed
  have iff: "res_ret (memipc_get_req my_pid m a cap out) = - 2 \<longleftrightarrow>
            EIGHT \<le> inbuffer (get_req_refresh m a) \<and> \<not> block_not_ready m (rptr a)
            \<and> cap + 5 < int (unat (decode_msize m (rptr a)))"
    unfolding g get_req_body_too_large c by simp
  have rej: "res_mem (memipc_get_req my_pid m a cap out) = m
            \<and> res_area (memipc_get_req my_pid m a cap out) = get_req_refresh m a"
    if "res_ret (memipc_get_req my_pid m a cap out) = - 2"
    using that get_req_body_rejected [of m "get_req_refresh m a" cap out] unfolding g by simp
  have later: "memipc_get_req my_pid m (get_req_refresh m a) cap' out'
                 = memipc_get_req my_pid m a cap' out'" for cap' out'
    using get_req_after_refresh [of my_pid m a cap' out'] assms(1) by simp
  show ?thesis
    using iff rej later get_req_refresh_inbuffer [of a m] by simp
qed

theorem get_req_too_large_witness:
  "res_ret (memipc_get_req 2 put_mem ring32w 15 zero_mem) = - 2
   \<and> res_ret (memipc_get_req 2 (res_mem (memipc_get_req 2 put_mem ring32w 15 zero_mem))
                 (res_area (memipc_get_req 2 put_mem ring32w 15 zero_mem)) 100 zero_mem) = 0
   \<and> res_size (memipc_get_req 2 (res_mem (memipc_get_req 2 put_mem ring32w 15 zero_mem))
                 (res_area (memipc_get_req 2 put_mem ring32w 15 zero_mem)) 100 zero_mem) = 16"
proof -
  have r: "reader ring32w = 2" by (simp add: ring32w_def)
  have m2: "res_ret (memipc_get_req 2 put_mem ring32w 15 zero_mem) = - 2" by code_simp
  have ok: "res_ret (memipc_get_req 2 put_mem ring32w 100 zero_mem) = 0
          \<and> res_size (memipc_get_req 2 put_mem ring32w 100 zero_mem) = 16" by code_simp
  have c1: "(0::int) \<le> 15" and c2: "(15::int) < 2 ^ 63" by simp_all
  from get_req_too_large [OF r c1 c2, of put_mem zero_mem] m2
  have "memipc_get_req 2 (res_mem (memipc_get_req 2 put_mem ring32w 15 zero_mem))
          (res_area (memipc_get_req 2 put_mem ring32w 15 zero_mem)) 100 zero_mem
        = memipc_get_req 2 put_mem ring32w 100 zero_mem"
    by blast
  with m2 ok show ?thesis by simp
qed

theorem get_req_too_large_counterexample:
  "res_ret (memipc_get_req 2 put_mem ring32w 15 zero_mem) = - 2
   \<and> inbuffer ring32w = 0
   \<and> inbuffer (res_area (memipc_get_req 2 put_mem ring32w 15 zero_mem)) = 24"
  by code_simp

section \<open>The round trip through a ring\<close>

lemma bit_index_8:
  "ix < LENGTH(8) \<Longrightarrow> ix = 0 \<or> ix = 1 \<or> ix = 2 \<or> ix = 3 \<or> ix = 4 \<or> ix = 5 \<or> ix = 6 \<or> ix = (7::nat)"
  by simp arith

lemma double_push: "(b::u8) * 2 = push_bit (Suc 0) b"
  by (simp add: push_bit_eq_mult)

lemma codec0: "drop_bit 1 (push_bit 1 (b0::u8) OR 1) OR (push_bit 6 (drop_bit 6 (b0 AND 0x80) OR push_bit 2 b1 OR 1) AND 0x80) = b0"
  by (rule bit_word_eqI, drule bit_index_8)
     (elim disjE; (simp add: bit_simps double_push del: push_bit_Suc)?; (simp add: eval_nat_numeral)?)

lemma codec1: "drop_bit 2 (drop_bit 6 ((b0::u8) AND 0x80) OR push_bit 2 b1 OR 1) OR (push_bit 5 (drop_bit 5 (b1 AND 0xc0) OR push_bit 3 b2 OR 1) AND 0xc0) = b1"
  by (rule bit_word_eqI, drule bit_index_8) (elim disjE; simp add: bit_simps)

lemma codec2: "drop_bit 3 (drop_bit 5 ((b1::u8) AND 0xc0) OR push_bit 3 b2 OR 1) OR (push_bit 4 (drop_bit 4 (b2 AND 0xe0) OR push_bit 4 b3 OR 1) AND 0xe0) = b2"
  by (rule bit_word_eqI, drule bit_index_8) (elim disjE; simp add: bit_simps)

lemma codec3: "drop_bit 4 (drop_bit 4 ((b2::u8) AND 0xe0) OR push_bit 4 b3 OR 1) OR (push_bit 3 (drop_bit 3 (b3 AND 0xf0) OR push_bit 5 b4 OR 1) AND 0xf0) = b3"
  by (rule bit_word_eqI, drule bit_index_8) (elim disjE; simp add: bit_simps)

lemma codec4: "drop_bit 5 (drop_bit 3 ((b3::u8) AND 0xf0) OR push_bit 5 b4 OR 1) OR (push_bit 2 (drop_bit 2 (b4 AND 0xf8) OR push_bit 6 b5 OR 1) AND 0xf8) = b4"
  by (rule bit_word_eqI, drule bit_index_8) (elim disjE; simp add: bit_simps)

lemma codec5: "drop_bit 6 (drop_bit 2 ((b4::u8) AND 0xf8) OR push_bit 6 b5 OR 1) OR (push_bit 1 (drop_bit 1 (b5 AND 0xfc) OR push_bit 7 b6 OR 1) AND 0xfc) = b5"
  by (rule bit_word_eqI, drule bit_index_8)
     (elim disjE; (simp add: bit_simps double_push del: push_bit_Suc)?; (simp add: eval_nat_numeral)?)

lemma codec6: "drop_bit 7 (drop_bit 1 ((b5::u8) AND 0xfc) OR push_bit 7 b6 OR 1) OR ((b6 OR 1) AND 0xfe) = b6"
  by (rule bit_word_eqI, drule bit_index_8) (elim disjE; simp add: bit_simps)

lemma low_bit_or_1: "1 AND ((x::u8) OR 1) = 1"
  by (rule bit_word_eqI, drule bit_index_8) (elim disjE; simp add: bit_simps)

lemma encode_write_at:
  "encode_write m p b0 b1 b2 b3 b4 b5 b6 p = push_bit 1 b0 OR 1"
  "encode_write m p b0 b1 b2 b3 b4 b5 b6 (p + 1) = drop_bit 6 (b0 AND 0x80) OR push_bit 2 b1 OR 1"
  "encode_write m p b0 b1 b2 b3 b4 b5 b6 (p + 2) = drop_bit 5 (b1 AND 0xc0) OR push_bit 3 b2 OR 1"
  "encode_write m p b0 b1 b2 b3 b4 b5 b6 (p + 3) = drop_bit 4 (b2 AND 0xe0) OR push_bit 4 b3 OR 1"
  "encode_write m p b0 b1 b2 b3 b4 b5 b6 (p + 4) = drop_bit 3 (b3 AND 0xf0) OR push_bit 5 b4 OR 1"
  "encode_write m p b0 b1 b2 b3 b4 b5 b6 (p + 5) = drop_bit 2 (b4 AND 0xf8) OR push_bit 6 b5 OR 1"
  "encode_write m p b0 b1 b2 b3 b4 b5 b6 (p + 6) = drop_bit 1 (b5 AND 0xfc) OR push_bit 7 b6 OR 1"
  "encode_write m p b0 b1 b2 b3 b4 b5 b6 (p + 7) = b6 OR 1"
  by (simp_all add: encode_write_def)

lemma encode_write_frame:
  "x < p \<or> p + 8 \<le> x \<Longrightarrow> encode_write m p b0 b1 b2 b3 b4 b5 b6 x = m x"
  by (auto simp add: encode_write_def)

lemma encode_write_ready: "\<not> block_not_ready (encode_write m p b0 b1 b2 b3 b4 b5 b6) p"
proof -
  have "\<forall>k<8. bit (encode_write m p b0 b1 b2 b3 b4 b5 b6 (p + k)) 0"
    unfolding all_less_8
    by (simp add: encode_write_def bit_simps)
  then show ?thesis by (simp add: block_not_ready_iff)
qed

lemma less_7_cases:
  assumes "k < (7::nat)"
  obtains "k = 0" | "k = 1" | "k = 2" | "k = 3" | "k = 4" | "k = 5" | "k = 6"
  using assms by arith
lemma block_holds_eq:
  "(\<And>k. k < 7 \<Longrightarrow> g k = g' k) \<Longrightarrow> block_holds m p g = block_holds m p g'"
  by (simp add: block_holds_def)

lemma block_holds_cong:
  assumes "\<And>i. i < 8 \<Longrightarrow> m' (p + i) = m (p + i)"
  shows "block_holds m' p g = block_holds m p g"
proof -
  have "m' p = m p" using assms [of 0] by simp
  moreover have "m' (p + 1) = m (p + 1)" "m' (p + 2) = m (p + 2)" "m' (p + 3) = m (p + 3)"
    "m' (p + 4) = m (p + 4)" "m' (p + 5) = m (p + 5)" "m' (p + 6) = m (p + 6)"
    "m' (p + 7) = m (p + 7)"
    using assms [of 1] assms [of 2] assms [of 3] assms [of 4] assms [of 5] assms [of 6]
      assms [of 7] by simp_all
  ultimately show ?thesis
    by (simp only: block_holds_def block_not_ready_def dec0_def dec1_def dec2_def dec3_def
        dec4_def dec5_def dec6_def)
qed

lemma block_holds_ready: "block_holds m p g \<Longrightarrow> i < 8 \<Longrightarrow> m (p + i) AND 1 = 1"
proof -
  assume h: "block_holds m p g" and i: "i < 8"
  then have "\<not> block_not_ready m p" by (simp add: block_holds_def)
  then have "\<forall>k<8. bit (m (p + k)) 0" by (simp add: block_not_ready_iff)
  with i have "bit (m (p + i)) 0" by blast
  then show ?thesis
    by (simp add: and.commute [of _ 1] one_and_eq bit_0 odd_iff_mod_2_eq_one)
qed

lemma encode_write_holds:
  "block_holds (encode_write m p b0 b1 b2 b3 b4 b5 b6) p (\<lambda>k. [b0, b1, b2, b3, b4, b5, b6] ! k)"
  by (simp only: block_holds_def dec0_def dec1_def dec2_def dec3_def dec4_def dec5_def dec6_def
      encode_write_at encode_write_ready codec0 codec1 codec2 codec3 codec4 codec5 codec6)
     simp

lemma write_encode_bytes_ok:
  assumes "write_encode_bytes m dst src sz = Some (0, m')"
  shows "block_holds m' dst (\<lambda>k. if k < sz then src k else 0)"
    and "\<And>x. x < dst \<or> dst + 8 \<le> x \<Longrightarrow> m' x = m x"
proof -
  from assms have m': "m' = encode_write m dst
             (if 0 < sz then src 0 else 0) (if 1 < sz then src 1 else 0)
             (if 2 < sz then src 2 else 0) (if 3 < sz then src 3 else 0)
             (if 4 < sz then src 4 else 0) (if 5 < sz then src 5 else 0)
             (if 6 < sz then src 6 else 0)"
    by (auto simp: write_encode_bytes_def split: if_splits)
  have "k < 7 \<Longrightarrow> [if 0 < sz then src 0 else 0, if 1 < sz then src 1 else 0,
             if 2 < sz then src 2 else 0, if 3 < sz then src 3 else 0,
             if 4 < sz then src 4 else 0, if 5 < sz then src 5 else 0,
             if 6 < sz then src 6 else 0] ! k = (if k < sz then src k else 0)" for k
    by (cases k rule: less_7_cases) simp_all
  from block_holds_eq [of _ "\<lambda>k. if k < sz then src k else 0", OF this] encode_write_holds
  show "block_holds m' dst (\<lambda>k. if k < sz then src k else 0)"
    unfolding m' by blast
  show "\<And>x. x < dst \<or> dst + 8 \<le> x \<Longrightarrow> m' x = m x"
    unfolding m' by (rule encode_write_frame)
qed
lemma write_encode_bytes_with_header_ok:
  assumes "write_encode_bytes_with_header m dst src sz t ms = Some (0, m')"
  shows "block_holds m' dst (\<lambda>k. [t, ucast (ms AND 0xff), ucast (drop_bit 8 ms AND 0xff),
            ucast (drop_bit 16 ms AND 0xff), ucast (drop_bit 24 ms AND 0xff),
            if 0 < sz then src 0 else 0, if 1 < sz then src 1 else 0] ! k)"
    and "\<And>x. x < dst \<or> dst + 8 \<le> x \<Longrightarrow> m' x = m x"
proof -
  from assms have m': "m' = encode_write m dst t (ucast (ms AND 0xff))
            (ucast (drop_bit 8 ms AND 0xff)) (ucast (drop_bit 16 ms AND 0xff))
            (ucast (drop_bit 24 ms AND 0xff))
            (if 0 < sz then src 0 else 0) (if 1 < sz then src 1 else 0)"
    by (auto simp: write_encode_bytes_with_header_def split: if_splits)
  show "block_holds m' dst (\<lambda>k. [t, ucast (ms AND 0xff), ucast (drop_bit 8 ms AND 0xff),
            ucast (drop_bit 16 ms AND 0xff), ucast (drop_bit 24 ms AND 0xff),
            if 0 < sz then src 0 else 0, if 1 < sz then src 1 else 0] ! k)"
    unfolding m' by (rule encode_write_holds)
  show "\<And>x. x < dst \<or> dst + 8 \<le> x \<Longrightarrow> m' x = m x"
    unfolding m' by (rule encode_write_frame)
qed

lemma length_msg_header [simp]: "length (msg_header t d) = 5"
  by (simp add: msg_header_def)

lemma length_msg_bytes [simp]: "length (msg_bytes t d) = length d + 5"
  by (simp add: msg_bytes_def)

lemma grp_data:
  assumes "1 \<le> j" and "k < 7"
  shows "grp (msg_bytes t d) j k
         = (if j * 7 + k < length d + 5 then d ! (j * 7 + k - 5) else 0)"
proof -
  have "5 \<le> j * 7 + k" using assms by simp
  then show ?thesis
    by (simp add: grp_def nth_append msg_bytes_def)
qed

lemma grp_header:
  "grp (msg_bytes t d) 0 0 = req_type_char t"
  "grp (msg_bytes t d) 0 1 = ucast (size_word d AND 0xff)"
  "grp (msg_bytes t d) 0 (Suc 0) = ucast (size_word d AND 0xff)"
  "grp (msg_bytes t d) 0 2 = ucast (drop_bit 8 (size_word d) AND 0xff)"
  "grp (msg_bytes t d) 0 3 = ucast (drop_bit 16 (size_word d) AND 0xff)"
  "grp (msg_bytes t d) 0 4 = ucast (drop_bit 24 (size_word d) AND 0xff)"
  "grp (msg_bytes t d) 0 5 = (if 0 < length d then d ! 0 else 0)"
  "grp (msg_bytes t d) 0 6 = (if 1 < length d then d ! 1 else 0)"
  by (simp_all add: grp_def) (simp_all add: msg_bytes_def msg_header_def nth_append)

text \<open>One block of the writer: block \<open>j\<close> of the message ends up in the store.\<close>

lemma add_req_block_ok:
  assumes "add_req_block m dst t d (j * 7 + 7 - 5) = Some (0, m')"
    and "j * 7 \<le> length d + 5"
  shows "block_holds m' dst (grp (msg_bytes t d) j)"
    and "\<And>x. x < dst \<or> dst + 8 \<le> x \<Longrightarrow> m' x = m x"
proof -
  show "block_holds m' dst (grp (msg_bytes t d) j)"
  proof (cases "j = 0")
    case True
    let ?sz = "if length d < 2 then length d else 2"
    from assms(1) have "add_req_block m dst t d 2 = Some (0, m')"
      by (simp add: True)
    then have w: "write_encode_bytes_with_header m dst (\<lambda>k. d ! k) ?sz
        (req_type_char t) (size_word d) = Some (0, m')"
      unfolding add_req_block_def size_word_def [symmetric] by (simp add: SEVEN_def)
    have "k < 7 \<Longrightarrow> [req_type_char t,
            ucast (size_word d AND 0xff),
            ucast (drop_bit 8 (size_word d) AND 0xff),
            ucast (drop_bit 16 (size_word d) AND 0xff),
            ucast (drop_bit 24 (size_word d) AND 0xff),
            if 0 < ?sz then d ! 0 else 0, if 1 < ?sz then d ! 1 else 0] ! k
          = grp (msg_bytes t d) 0 k" for k
      by (cases k rule: less_7_cases) (simp_all add: grp_header)
    from block_holds_eq [of _ "grp (msg_bytes t d) 0", OF this]
      write_encode_bytes_with_header_ok(1) [OF w]
    show ?thesis using True by blast
  next
    case False
    then have j: "1 \<le> j" by simp
    let ?sz = "if 7 < length d + 5 - j * 7 then 7 else length d + 5 - j * 7"
    have d: "int (length d) - (int (j * 7 + 7 - 5) - int 7) = int (length d + 5 - j * 7)"
      using assms(2) j by simp
    from assms(1) j have w: "write_encode_bytes m dst (\<lambda>k. d ! (j * 7 + 7 - 5 - 7 + k)) ?sz
        = Some (0, m')"
      unfolding add_req_block_def SEVEN_def Let_def d by (simp split: if_splits)
    have "k < 7 \<Longrightarrow> (if k < ?sz then d ! (j * 7 + 7 - 5 - 7 + k) else 0)
          = grp (msg_bytes t d) j k" for k
    proof -
      assume k: "k < 7"
      have "j * 7 + 7 - 5 - 7 + k = j * 7 + k - 5" using j by simp
      moreover have "k < ?sz \<longleftrightarrow> j * 7 + k < length d + 5" using k by auto
      ultimately show ?thesis using grp_data [OF j k, of t d] by simp
    qed
    from block_holds_eq [of _ "grp (msg_bytes t d) j", OF this] write_encode_bytes_ok(1) [OF w]
    show ?thesis by blast
  qed
  show "\<And>x. x < dst \<or> dst + 8 \<le> x \<Longrightarrow> m' x = m x"
    using assms(1) write_encode_bytes_ok(2) write_encode_bytes_with_header_ok(2)
    unfolding add_req_block_def Let_def by (auto split: if_splits)
qed

text \<open>One writing loop: blocks \<open>skip .. skip + n - 1\<close> of the message end up at
  \<open>base, base + 8, ...\<close>, and nothing else changes.\<close>

lemma add_req_write_ok:
  assumes "add_req_write base skip t d n m tr0 = Some (0, m', tr)"
    and "n = 0 \<or> (skip + n - 1) * 7 \<le> length d + 5"
  shows "(\<forall>i<n. block_holds m' (base + i * 8) (grp (msg_bytes t d) (skip + i)))
       \<and> (\<forall>x. x < base \<or> base + n * 8 \<le> x \<longrightarrow> m' x = m x)"
  using assms
proof (induction n arbitrary: m tr0)
  case 0
  then show ?case by simp
next
  case (Suc n)
  from Suc.prems(1) obtain m1 tr1 where
    b: "add_req_block m (base + n * 8) t d ((skip + n) * 7 + 7 - 5) = Some (0, m1)"
    and rec: "add_req_write base skip t d n m1 tr1 = Some (0, m', tr)"
    by (auto simp: Let_def SEVEN_def EIGHT_def HEADER_SIZE_def add_mult_distrib
        split: option.splits if_splits)
  from Suc.prems(2) have le: "(skip + n) * 7 \<le> length d + 5" by simp
  then have le': "n = 0 \<or> (skip + n - 1) * 7 \<le> length d + 5" by (cases n) auto
  note blk = add_req_block_ok [OF b le]
  from Suc.IH [OF rec le'] have
    ih1: "\<And>i. i < n \<Longrightarrow> block_holds m' (base + i * 8) (grp (msg_bytes t d) (skip + i))"
    and ih2: "\<And>x. x < base \<or> base + n * 8 \<le> x \<Longrightarrow> m' x = m1 x"
    by blast+
  have last: "block_holds m' (base + n * 8) (grp (msg_bytes t d) (skip + n))"
    using blk(1) block_holds_cong [of m' "base + n * 8" m1] ih2 by simp
  have frame: "m' x = m x" if "x < base \<or> base + Suc n * 8 \<le> x" for x
  proof -
    from that have "m' x = m1 x" by (intro ih2) auto
    also from that have "m1 x = m x" by (intro blk(2)) auto
    finally show ?thesis .
  qed
  show ?case using ih1 last frame by (auto simp: less_Suc_eq)
qed
lemma le_7_cases:
  assumes "k \<le> (7::nat)"
  obtains "k = 0" | "k = 1" | "k = 2" | "k = 3" | "k = 4" | "k = 5" | "k = 6" | "k = 7"
  using assms by arith

lemma read_decode_bytes_ok:
  assumes "block_holds m s g" and "sz \<le> 7"
  shows "fst (read_decode_bytes out d m s sz) = 0"
    and "snd (read_decode_bytes out d m s sz) q
           = (if d \<le> q \<and> q < d + sz then g (q - d) else out q)"
proof -
  from assms(1) have r: "\<not> block_not_ready m s"
    and g: "dec0 m s = g 0" "dec1 m s = g 1" "dec2 m s = g 2" "dec3 m s = g 3"
      "dec4 m s = g 4" "dec5 m s = g 5" "dec6 m s = g 6"
    by (simp_all add: block_holds_def)
  show "fst (read_decode_bytes out d m s sz) = 0"
    using r by (simp add: read_decode_bytes_def Let_def)
  have q: "q < d \<or> q = d \<or> q = d + 1 \<or> q = d + 2 \<or> q = d + 3 \<or> q = d + 4 \<or> q = d + 5
          \<or> q = d + 6 \<or> d + 7 \<le> q" by arith
  show "snd (read_decode_bytes out d m s sz) q
           = (if d \<le> q \<and> q < d + sz then g (q - d) else out q)"
    using assms(2)
  proof (cases sz rule: le_7_cases)
    case 1 then show ?thesis using r by (auto simp add: read_decode_bytes_def)
  next
    case 2 then show ?thesis using r g q by (auto simp add: read_decode_bytes_def Let_def)
  next
    case 3 then show ?thesis using r g q by (auto simp add: read_decode_bytes_def Let_def)
  next
    case 4 then show ?thesis using r g q by (auto simp add: read_decode_bytes_def Let_def)
  next
    case 5 then show ?thesis using r g q by (auto simp add: read_decode_bytes_def Let_def)
  next
    case 6 then show ?thesis using r g q by (auto simp add: read_decode_bytes_def Let_def)
  next
    case 7 then show ?thesis using r g q by (auto simp add: read_decode_bytes_def Let_def)
  next
    case 8 then show ?thesis using r g q by (auto simp add: read_decode_bytes_def Let_def)
  qed
qed

lemma get_req_dstsize_eq:
  "i * 7 < n \<Longrightarrow> get_req_dstsize n i = min 7 (n - i * 7)"
  by (simp add: get_req_dstsize_def SEVEN_def min_def)

text \<open>One reading loop: the payload bytes of blocks \<open>skip + i0 .. skip + n - 1\<close> arrive
  at their offsets in the destination; everything else in the destination stays.\<close>

lemma get_req_read_ok:
  assumes "\<And>i. i0 \<le> i \<Longrightarrow> i < n \<Longrightarrow> block_holds m (base + i * 8) (grp bs (skip + i))"
    and "i0 < n \<Longrightarrow> (skip + n - 1) * 7 < length bs"
    and "1 \<le> skip + i0" and "dstptr = (skip + i0) * 7 - 5" and "i0 \<le> n"
  shows "fst (get_req_read m base skip (length bs) n i0 out dstptr) = 0
       \<and> (\<forall>q. fst (snd (get_req_read m base skip (length bs) n i0 out dstptr)) q
               = (if (skip + i0) * 7 \<le> q + 5 \<and> q + 5 < (skip + n) * 7 \<and> q + 5 < length bs
                  then bs ! (q + 5) else out q))
       \<and> (i0 < n \<longrightarrow> snd (snd (get_req_read m base skip (length bs) n i0 out dstptr))
               = min (length bs) ((skip + n) * 7) - 5)"
  using assms
proof (induction "n - i0" arbitrary: i0 out dstptr)
  case 0
  then have "i0 = n" by simp
  then have "get_req_read m base skip (length bs) n i0 out dstptr = (0, out, dstptr)"
    by (subst get_req_read.simps) simp
  with \<open>i0 = n\<close> show ?case by auto
next
  case (Suc k)
  then have lt: "i0 < n" by simp
  let ?j = "skip + i0"
  let ?sz = "min 7 (length bs - ?j * 7)"
  have jlt: "?j * 7 < length bs"
  proof -
    have "?j \<le> skip + n - 1" using lt by simp
    then have "?j * 7 \<le> (skip + n - 1) * 7" by simp
    with Suc.prems(2) [OF lt] show ?thesis by simp
  qed
  have ds: "get_req_dstsize (length bs) ?j = ?sz" by (rule get_req_dstsize_eq [OF jlt])
  have bh: "block_holds m (base + i0 * 8) (grp bs ?j)" using Suc.prems(1) [of i0] lt by simp
  obtain r out' where rd: "read_decode_bytes out dstptr m (base + i0 * EIGHT) ?sz = (r, out')"
    by (cases "read_decode_bytes out dstptr m (base + i0 * EIGHT) ?sz")
  from read_decode_bytes_ok [OF bh, of ?sz out dstptr] rd
  have r0: "r = 0"
    and o': "\<And>q. out' q = (if dstptr \<le> q \<and> q < dstptr + ?sz then grp bs ?j (q - dstptr) else out q)"
    by (simp_all add: EIGHT_def)
  have step: "get_req_read m base skip (length bs) n i0 out dstptr
        = get_req_read m base skip (length bs) n (i0 + 1) out' (dstptr + ?sz)"
    using lt rd r0 ds by (subst get_req_read.simps) (simp add: Let_def)
  have dp: "dstptr = ?j * 7 - 5" and j1: "1 \<le> ?j" using Suc.prems by simp_all
  have o'': "out' q = (if ?j * 7 \<le> q + 5 \<and> q + 5 < (?j + 1) * 7 \<and> q + 5 < length bs
                       then bs ! (q + 5) else out q)" for q
  proof (cases "dstptr \<le> q \<and> q < dstptr + ?sz")
    case True
    have "?sz \<le> 7" by simp
    with True have q7: "q - dstptr < 7" by linarith
    have c: "?j * 7 \<le> q + 5 \<and> q + 5 < (?j + 1) * 7 \<and> q + 5 < length bs"
      using True dp j1 jlt by (auto simp: min_def split: if_splits)
    have e: "?j * 7 + (q - dstptr) = q + 5" using True dp j1 by arith
    have "out' q = grp bs ?j (q - dstptr)" using o' [of q] by (simp only: True if_True simp_thms)
    also have "\<dots> = bs ! (q + 5)" unfolding grp_def e using c by simp
    finally show ?thesis by (simp only: c if_True simp_thms)
  next
    case False
    have c: "\<not> (?j * 7 \<le> q + 5 \<and> q + 5 < (?j + 1) * 7 \<and> q + 5 < length bs)"
      using False dp j1 jlt by (auto simp: min_def split: if_splits)
    have "out' q = out q" using o' [of q] by (simp only: False if_False simp_thms)
    then show ?thesis by (simp only: c if_False simp_thms)
  qed
  show ?case
  proof (cases "i0 + 1 < n")
    case True
    have szs: "?sz = 7"
    proof -
      have "?j + 1 \<le> skip + n - 1" using True by simp
      then have "(?j + 1) * 7 \<le> (skip + n - 1) * 7" by (rule mult_le_mono1)
      with Suc.prems(2) [OF lt] show ?thesis by (simp add: min_def)
    qed
    have ih: "fst (get_req_read m base skip (length bs) n (i0 + 1) out' (dstptr + ?sz)) = 0
       \<and> (\<forall>q. fst (snd (get_req_read m base skip (length bs) n (i0 + 1) out' (dstptr + ?sz))) q
               = (if (skip + (i0 + 1)) * 7 \<le> q + 5 \<and> q + 5 < (skip + n) * 7 \<and> q + 5 < length bs
                  then bs ! (q + 5) else out' q))
       \<and> (i0 + 1 < n \<longrightarrow> snd (snd (get_req_read m base skip (length bs) n (i0 + 1) out' (dstptr + ?sz)))
               = min (length bs) ((skip + n) * 7) - 5)"
    proof (rule Suc.hyps(1))
      show "k = n - (i0 + 1)" using Suc.hyps(2) by simp
      show "\<And>i. i0 + 1 \<le> i \<Longrightarrow> i < n \<Longrightarrow> block_holds m (base + i * 8) (grp bs (skip + i))"
        using Suc.prems(1) by simp
      show "i0 + 1 < n \<Longrightarrow> (skip + n - 1) * 7 < length bs" using Suc.prems(2) lt by simp
      show "1 \<le> skip + (i0 + 1)" by simp
      show "dstptr + ?sz = (skip + (i0 + 1)) * 7 - 5" using dp j1 szs by simp
      show "i0 + 1 \<le> n" using lt by simp
    qed
    have "(if (skip + (i0 + 1)) * 7 \<le> q + 5 \<and> q + 5 < (skip + n) * 7 \<and> q + 5 < length bs
                  then bs ! (q + 5) else out' q)
        = (if ?j * 7 \<le> q + 5 \<and> q + 5 < (skip + n) * 7 \<and> q + 5 < length bs
                  then bs ! (q + 5) else out q)" for q
      using True by (auto simp: o'')
    with ih True lt show ?thesis unfolding step by simp
  next
    case False
    then have n: "n = i0 + 1" using lt by simp
    have fin: "get_req_read m base skip (length bs) n (i0 + 1) out' (dstptr + ?sz)
                = (0, out', dstptr + ?sz)"
      using n by (subst get_req_read.simps) simp
    have "dstptr + ?sz = min (length bs) ((skip + n) * 7) - 5"
      using n dp j1 jlt by (auto simp: min_def)
    then show ?thesis unfolding step fin using o'' n lt by (auto simp: add.commute)
  qed
qed

lemma blocks_for_bounds:
  "(blocks_for n - 1) * 7 < n \<or> n = 0" "n \<le> blocks_for n * 7"
  by (simp_all add: blocks_for_ceil) arith+

lemma add_req_trace_of:
  "memipc_add_req my_pid m a t d = Some (r, m', a') \<Longrightarrow>
     \<exists>tr. memipc_add_req_trace my_pid m a t d = Some (r, m', a', tr)"
  by (auto simp: memipc_add_req_def)

text \<open>Where a successful enqueue leaves the blocks of the message.\<close>

lemma put_layout:
  assumes put: "memipc_add_req my_pid m W t d = Some (0, m', W')"
    and ok: "area_ok W"
  defines "B1 \<equiv> (area W + size_area W - wptr W) div 8"
    and "bc \<equiv> blocks_for (length d + 5)"
    and "bs \<equiv> msg_bytes t d"
  shows "bc * 8 \<le> size_area W"
    and "bc \<le> B1 \<Longrightarrow> i < bc \<Longrightarrow> block_holds m' (wptr W + i * 8) (grp bs i)"
    and "B1 < bc \<Longrightarrow> i < B1 \<Longrightarrow> block_holds m' (wptr W + i * 8) (grp bs i)"
    and "B1 < bc \<Longrightarrow> i < bc - B1 \<Longrightarrow> block_holds m' (area W + i * 8) (grp bs (B1 + i))"
proof -
  let ?a1 = "add_req_refresh m W"
  from add_req_trace_of [OF put] obtain tr where
    tr: "memipc_add_req_trace my_pid m W t d = Some (0, m', W', tr)" by blast
  from tr have w: "writer W = my_pid"
    by (auto simp: memipc_add_req_trace_def split: if_splits)
  from tr w have en: "\<not> blocks_available ?a1 < bc"
    by (auto simp: memipc_add_req_trace_def Let_def bc_def HEADER_SIZE_def split: if_splits)
  have ok1: "area_ok ?a1" by (rule add_req_refresh_ok [OF ok])
  then have r1: "area W \<le> rptr ?a1" "rptr ?a1 < area W + size_area W"
    and p1: "area W \<le> wptr W" "wptr W < area W + size_area W"
    by (simp_all add: area_ok_def)
  have b1le: "blocks_available_1 ?a1 \<le> B1"
    using r1 by (auto simp: blocks_available_1_def B1_def EIGHT_def intro!: div_le_mono)
  have last: "bc = 0 \<or> (0 + bc - 1) * 7 \<le> length d + 5"
    using blocks_for_bounds(1) [of "length d + 5"] by (auto simp: bc_def)
  have goal: "bc * 8 \<le> size_area W
    \<and> (bc \<le> B1 \<longrightarrow> (\<forall>i<bc. block_holds m' (wptr W + i * 8) (grp bs i)))
    \<and> (B1 < bc \<longrightarrow> (\<forall>i<B1. block_holds m' (wptr W + i * 8) (grp bs i))
          \<and> (\<forall>i<bc - B1. block_holds m' (area W + i * 8) (grp bs (B1 + i))))"
  proof (cases "blocks_available_1 ?a1 < bc")
    case False
    with tr w en obtain tr1 where
      wr: "add_req_write (wptr W) 0 t d bc m [] = Some (0, m', tr1)"
      by (auto simp: memipc_add_req_trace_def Let_def bc_def HEADER_SIZE_def
          split: if_splits option.splits)
    from False b1le have le: "bc \<le> B1" by simp
    have "B1 * 8 \<le> area W + size_area W - wptr W" by (simp add: B1_def)
    with le p1 have sz: "bc * 8 \<le> size_area W" by simp
    from add_req_write_ok [OF wr last] le sz show ?thesis by (simp add: bs_def)
  next
    case True
    have nlt: "\<not> wptr ?a1 < rptr ?a1"
    proof
      assume "wptr ?a1 < rptr ?a1"
      then have "blocks_available ?a1 = blocks_available_1 ?a1"
        by (simp add: blocks_available_def blocks_available_2_def)
      with en True show False by simp
    qed
    then have b1: "blocks_available_1 ?a1 = B1"
      and b2: "blocks_available_2 ?a1 = (rptr ?a1 - area W) div 8"
      by (simp_all add: blocks_available_1_def blocks_available_2_def B1_def EIGHT_def)
    from nlt have rp: "rptr ?a1 \<le> wptr W" by simp
    from en have bcle: "bc \<le> B1 + (rptr ?a1 - area W) div 8"
      by (simp add: blocks_available_def b1 b2)
    from True b1 have lt: "B1 < bc" by simp
    from tr w en True obtain m1 tr1 tr2 where
      w1: "add_req_write (area W) B1 t d (bc - B1) m [] = Some (0, m1, tr1)"
      and w2: "add_req_write (wptr W) 0 t d B1 m1 tr1 = Some (0, m', tr2)"
      by (auto simp: memipc_add_req_trace_def Let_def bc_def [symmetric] HEADER_SIZE_def b1
          split: if_splits option.splits)
    have l1: "bc - B1 = 0 \<or> (B1 + (bc - B1) - 1) * 7 \<le> length d + 5"
      using last lt by simp
    have l2: "B1 = 0 \<or> (0 + B1 - 1) * 7 \<le> length d + 5"
    proof -
      have "(B1 - 1) * 7 \<le> (bc - 1) * 7" using lt by simp
      with last lt show ?thesis by simp
    qed
    note W1 = add_req_write_ok [OF w1 l1]
    note W2 = add_req_write_ok [OF w2 l2]
    have wrapped_end: "area W + (bc - B1) * 8 \<le> wptr W"
    proof -
      have "(rptr ?a1 - area W) div 8 * 8 \<le> rptr ?a1 - area W" by simp
      moreover have "bc - B1 \<le> (rptr ?a1 - area W) div 8" using bcle by simp
      then have "(bc - B1) * 8 \<le> (rptr ?a1 - area W) div 8 * 8" by (rule mult_le_mono1)
      ultimately show ?thesis using rp r1 by linarith
    qed
    have sz: "bc * 8 \<le> size_area W"
    proof -
      have "B1 * 8 \<le> area W + size_area W - wptr W" by (simp add: B1_def)
      moreover have "bc * 8 = B1 * 8 + (bc - B1) * 8" using lt by (simp add: algebra_simps)
      ultimately show ?thesis using wrapped_end p1 by linarith
    qed
    have wr: "block_holds m' (area W + i * 8) (grp bs (B1 + i))" if i: "i < bc - B1" for i
    proof -
      have "block_holds m1 (area W + i * 8) (grp bs (B1 + i))" using W1 i by (simp add: bs_def)
      moreover have "m' (area W + i * 8 + j) = m1 (area W + i * 8 + j)" if "j < 8" for j
      proof -
        have "(i + 1) * 8 \<le> (bc - B1) * 8" using i by (intro mult_le_mono1) simp
        with wrapped_end that have "area W + i * 8 + j < wptr W" by simp
        with W2 show ?thesis by blast
      qed
      ultimately show ?thesis using block_holds_cong [of m' "area W + i * 8" m1] by blast
    qed
    from W2 wr lt sz show ?thesis by (simp add: bs_def)
  qed
  from goal show "bc * 8 \<le> size_area W"
    and "bc \<le> B1 \<Longrightarrow> i < bc \<Longrightarrow> block_holds m' (wptr W + i * 8) (grp bs i)"
    and "B1 < bc \<Longrightarrow> i < B1 \<Longrightarrow> block_holds m' (wptr W + i * 8) (grp bs i)"
    and "B1 < bc \<Longrightarrow> i < bc - B1 \<Longrightarrow> block_holds m' (area W + i * 8) (grp bs (B1 + i))"
    by blast+
qed

lemma get_req_scan_run:
  assumes "\<And>x. x < N \<Longrightarrow> m (p + x) AND 1 = 1" and "p + N \<le> e" and "n0 + N \<le> sz" and "0 < N"
  shows "get_req_scan m a e sz p n0
         = get_req_scan m a e sz (if e \<le> p + N then a else p + N) (n0 + N)"
  using assms
proof (induction N arbitrary: p n0)
  case 0
  then show ?case by simp
next
  case (Suc N)
  have b: "m p AND 1 = 1" using Suc.prems(1) [of 0] by simp
  have lt: "n0 < sz" using Suc.prems(3) by simp
  have step: "get_req_scan m a e sz p n0
              = get_req_scan m a e sz (if e \<le> p + 1 then a else p + 1) (n0 + 1)"
    using b lt by (subst get_req_scan.simps) simp
  show ?case
  proof (cases "N = 0")
    case True
    then show ?thesis using step by simp
  next
    case False
    then have pe: "\<not> e \<le> p + 1" using Suc.prems(2) by simp
    have "get_req_scan m a e sz (p + 1) (n0 + 1)
          = get_req_scan m a e sz (if e \<le> p + 1 + N then a else p + 1 + N) (n0 + 1 + N)"
    proof (rule Suc.IH)
      show "\<And>x. x < N \<Longrightarrow> m (p + 1 + x) AND 1 = 1"
        using Suc.prems(1) by (metis Suc_eq_plus1 Suc_less_eq add.assoc add.commute)
      show "p + 1 + N \<le> e" using Suc.prems(2) by simp
      show "n0 + 1 + N \<le> sz" using Suc.prems(3) by simp
      show "0 < N" using False by simp
    qed
    with step pe show ?thesis by (simp add: add.commute add.left_commute)
  qed
qed

lemma ff_mask: "(0xff :: u32) = mask 8"
  by (simp add: mask_eq_exp_minus_1)

lemma word_reassemble:
  "push_bit 24 (ucast (ucast (drop_bit 24 w AND 0xff) :: u8) :: u32)
   OR push_bit 16 (ucast (ucast (drop_bit 16 w AND 0xff) :: u8))
   OR push_bit 8 (ucast (ucast (drop_bit 8 w AND 0xff) :: u8))
   OR ucast (ucast (w AND 0xff) :: u8) = (w :: u32)"
  unfolding ff_mask
proof (rule bit_word_eqI)
  fix n assume "n < LENGTH(32)"
  then have n: "n < 32" by simp
  consider "n < 8" | "8 \<le> n" "n < 16" | "16 \<le> n" "n < 24" | "24 \<le> n" "n < 32"
    using n by linarith
  then show "bit (push_bit 24 (ucast (ucast (drop_bit 24 w AND mask 8) :: u8) :: u32)
   OR push_bit 16 (ucast (ucast (drop_bit 16 w AND mask 8) :: u8))
   OR push_bit 8 (ucast (ucast (drop_bit 8 w AND mask 8) :: u8))
   OR ucast (ucast (w AND mask 8) :: u8)) n = bit w n"
  proof cases
    case 1 then show ?thesis by (simp add: bit_simps)
  next
    case 2 then show ?thesis by (auto simp add: bit_simps)
  next
    case 3 then show ?thesis by (auto simp add: bit_simps)
  next
    case 4 then show ?thesis by (auto simp add: bit_simps)
  qed
qed

lemma unat_size_word: "length d + 5 < 2 ^ 32 \<Longrightarrow> unat (size_word d) = length d + 5"
  unfolding size_word_def HEADER_SIZE_def by (simp only: unat_of_nat) simp

text \<open>The header block of a message, as the reader decodes it.\<close>

lemma read_header_ok:
  assumes "block_holds m p (grp (msg_bytes t d) 0)"
  shows "read_decode_bytes_with_header out 0 m p 2 ty0 ms0
         = (0, out(1 := grp (msg_bytes t d) 0 6, 0 := grp (msg_bytes t d) 0 5),
            req_type_char t, size_word d)"
proof -
  from assms have r: "\<not> block_not_ready m p"
    and g: "dec0 m p = grp (msg_bytes t d) 0 0" "dec1 m p = grp (msg_bytes t d) 0 1"
      "dec2 m p = grp (msg_bytes t d) 0 2" "dec3 m p = grp (msg_bytes t d) 0 3"
      "dec4 m p = grp (msg_bytes t d) 0 4" "dec5 m p = grp (msg_bytes t d) 0 5"
      "dec6 m p = grp (msg_bytes t d) 0 6"
    by (simp_all add: block_holds_def)
  have ms: "decode_msize m p = size_word d"
    unfolding decode_msize_def g grp_header by (rule word_reassemble)
  have ty: "dec0 m p = req_type_char t" unfolding g grp_header ..
  show ?thesis
    unfolding read_decode_bytes_with_header_def Let_def ms ty
    using r by (simp add: g)
qed

text \<open>The multi-block branch of the reader on a message that is laid out in the ring.\<close>

lemma get_req_multi_ok:
  assumes big: "7 < length bs"
    and B1: "B1 = (area a1 + size_area a1 - rptr a1) div 8"
    and al: "B1 * 8 = area a1 + size_area a1 - rptr a1" and pos: "1 \<le> B1"
    and inb: "blocks_for (length bs) * 8 \<le> inbuffer a1"
    and h1: "\<And>i. i < blocks_for (length bs) \<Longrightarrow> i < B1
               \<Longrightarrow> block_holds m (rptr a1 + i * 8) (grp bs i)"
    and h2: "\<And>i. B1 < blocks_for (length bs) \<Longrightarrow> i < blocks_for (length bs) - B1
               \<Longrightarrow> block_holds m (area a1 + i * 8) (grp bs (B1 + i))"
  shows "res_ret (get_req_multi m a1 ty (length bs) ns out0) = 0
       \<and> res_type (get_req_multi m a1 ty (length bs) ns out0) = Some ty
       \<and> res_size (get_req_multi m a1 ty (length bs) ns out0) = ns
       \<and> (\<forall>q. res_data (get_req_multi m a1 ty (length bs) ns out0) q
              = (if 7 \<le> q + 5 \<and> q + 5 < length bs then bs ! (q + 5) else out0 q))"
proof -
  let ?bc = "blocks_for (length bs)"
  have last: "(?bc - 1) * 7 < length bs"
    using blocks_for_bounds(1) [of "length bs"] big by auto
  have cover: "length bs \<le> ?bc * 7" by (rule blocks_for_bounds(2))
  have bc2: "2 \<le> ?bc" using big cover by simp
  have ninb: "\<not> inbuffer a1 < ?bc * EIGHT" using inb by (simp add: EIGHT_def)
  have av: "(area a1 + size_area a1 - rptr a1) div EIGHT = B1" by (simp add: B1 EIGHT_def)
  show ?thesis
  proof (cases "?bc \<le> B1")
    case True
    obtain r1 out1 d1 where
      rd: "get_req_read m (rptr a1) 0 (length bs) ?bc 1 out0 (SEVEN - HEADER_SIZE) = (r1, out1, d1)"
      by (cases "get_req_read m (rptr a1) 0 (length bs) ?bc 1 out0 (SEVEN - HEADER_SIZE)")
    have "fst (get_req_read m (rptr a1) 0 (length bs) ?bc 1 out0 2) = 0
       \<and> (\<forall>q. fst (snd (get_req_read m (rptr a1) 0 (length bs) ?bc 1 out0 2)) q
               = (if (0 + 1) * 7 \<le> q + 5 \<and> q + 5 < (0 + ?bc) * 7 \<and> q + 5 < length bs
                  then bs ! (q + 5) else out0 q))
       \<and> (1 < ?bc \<longrightarrow> snd (snd (get_req_read m (rptr a1) 0 (length bs) ?bc 1 out0 2))
               = min (length bs) ((0 + ?bc) * 7) - 5)"
    proof (rule get_req_read_ok)
      show "\<And>i. 1 \<le> i \<Longrightarrow> i < ?bc \<Longrightarrow> block_holds m (rptr a1 + i * 8) (grp bs (0 + i))"
        using h1 True by simp
      show "1 < ?bc \<Longrightarrow> (0 + ?bc - 1) * 7 < length bs" using last by simp
      show "1 \<le> 0 + (1::nat)" by simp
      show "2 = (0 + 1) * 7 - (5::nat)" by simp
      show "1 \<le> ?bc" using bc2 by simp
    qed
    with rd have r1: "r1 = 0"
      and o1: "\<And>q. out1 q = (if 7 \<le> q + 5 \<and> q + 5 < ?bc * 7 \<and> q + 5 < length bs
                  then bs ! (q + 5) else out0 q)"
      by (simp_all add: SEVEN_def HEADER_SIZE_def)
    have o1': "out1 q = (if 7 \<le> q + 5 \<and> q + 5 < length bs then bs ! (q + 5) else out0 q)" for q
      using o1 [of q] cover by auto
    have res: "res_ret (get_req_multi m a1 ty (length bs) ns out0) = 0
       \<and> res_type (get_req_multi m a1 ty (length bs) ns out0) = Some ty
       \<and> res_size (get_req_multi m a1 ty (length bs) ns out0) = ns
       \<and> res_data (get_req_multi m a1 ty (length bs) ns out0) = out1"
      unfolding get_req_multi_def Let_def av using True ninb rd r1 by simp
    with o1' show ?thesis by simp
  next
    case False
    then have lt: "B1 < ?bc" by simp
    obtain r1 out1 d1 where
      rd: "get_req_read m (rptr a1) 0 (length bs) B1 1 out0 (SEVEN - HEADER_SIZE) = (r1, out1, d1)"
      by (cases "get_req_read m (rptr a1) 0 (length bs) B1 1 out0 (SEVEN - HEADER_SIZE)")
    have first_full: "B1 * 7 < length bs"
    proof -
      have "B1 \<le> ?bc - 1" using lt by simp
      then have "B1 * 7 \<le> (?bc - 1) * 7" by (rule mult_le_mono1)
      with last show ?thesis by simp
    qed
    have "fst (get_req_read m (rptr a1) 0 (length bs) B1 1 out0 2) = 0
       \<and> (\<forall>q. fst (snd (get_req_read m (rptr a1) 0 (length bs) B1 1 out0 2)) q
               = (if (0 + 1) * 7 \<le> q + 5 \<and> q + 5 < (0 + B1) * 7 \<and> q + 5 < length bs
                  then bs ! (q + 5) else out0 q))
       \<and> (1 < B1 \<longrightarrow> snd (snd (get_req_read m (rptr a1) 0 (length bs) B1 1 out0 2))
               = min (length bs) ((0 + B1) * 7) - 5)"
    proof (rule get_req_read_ok)
      show "\<And>i. 1 \<le> i \<Longrightarrow> i < B1 \<Longrightarrow> block_holds m (rptr a1 + i * 8) (grp bs (0 + i))"
        using h1 lt by simp
      show "1 < B1 \<Longrightarrow> (0 + B1 - 1) * 7 < length bs" using first_full by simp
      show "1 \<le> 0 + (1::nat)" by simp
      show "2 = (0 + 1) * 7 - (5::nat)" by simp
      show "1 \<le> B1" by (rule pos)
    qed
    with rd have r1: "r1 = 0"
      and o1: "\<And>q. out1 q = (if 7 \<le> q + 5 \<and> q + 5 < B1 * 7 \<and> q + 5 < length bs
                  then bs ! (q + 5) else out0 q)"
      and d1': "1 < B1 \<longrightarrow> d1 = min (length bs) (B1 * 7) - 5"
      by (simp_all add: SEVEN_def HEADER_SIZE_def)
    have d1eq: "d1 = (B1 + 0) * 7 - 5"
    proof (cases "1 < B1")
      case True
      with d1' first_full show ?thesis by (simp add: min_def)
    next
      case False
      with pos have b: "B1 = 1" by simp
      have "get_req_read m (rptr a1) 0 (length bs) 1 1 out0 (SEVEN - HEADER_SIZE)
            = (0, out0, SEVEN - HEADER_SIZE)"
        by (subst get_req_read.simps) simp
      with rd b show ?thesis by (simp add: SEVEN_def HEADER_SIZE_def)
    qed
    obtain r2 out2 d2 where
      rd2: "get_req_read m (area a1) B1 (length bs) (?bc - B1) 0 out1 d1 = (r2, out2, d2)"
      by (cases "get_req_read m (area a1) B1 (length bs) (?bc - B1) 0 out1 d1")
    have "fst (get_req_read m (area a1) B1 (length bs) (?bc - B1) 0 out1 d1) = 0
       \<and> (\<forall>q. fst (snd (get_req_read m (area a1) B1 (length bs) (?bc - B1) 0 out1 d1)) q
               = (if (B1 + 0) * 7 \<le> q + 5 \<and> q + 5 < (B1 + (?bc - B1)) * 7 \<and> q + 5 < length bs
                  then bs ! (q + 5) else out1 q))
       \<and> (0 < ?bc - B1 \<longrightarrow> snd (snd (get_req_read m (area a1) B1 (length bs) (?bc - B1) 0 out1 d1))
               = min (length bs) ((B1 + (?bc - B1)) * 7) - 5)"
    proof (rule get_req_read_ok)
      show "\<And>i. 0 \<le> i \<Longrightarrow> i < ?bc - B1 \<Longrightarrow> block_holds m (area a1 + i * 8) (grp bs (B1 + i))"
        using h2 lt by simp
      show "0 < ?bc - B1 \<Longrightarrow> (B1 + (?bc - B1) - 1) * 7 < length bs" using last lt by simp
      show "1 \<le> B1 + 0" using pos by simp
      show "d1 = (B1 + 0) * 7 - 5" by (rule d1eq)
      show "0 \<le> ?bc - B1" by simp
    qed
    with rd2 lt have r2: "r2 = 0"
      and o2: "\<And>q. out2 q = (if B1 * 7 \<le> q + 5 \<and> q + 5 < ?bc * 7 \<and> q + 5 < length bs
                  then bs ! (q + 5) else out1 q)"
      by simp_all
    have o2': "out2 q = (if 7 \<le> q + 5 \<and> q + 5 < length bs then bs ! (q + 5) else out0 q)" for q
      using o2 [of q] o1 [of q] cover pos by auto
    have wrap: "area a1 + size_area a1 \<le> rptr a1 + B1 * EIGHT"
      using al by (simp add: EIGHT_def)
    have res: "res_ret (get_req_multi m a1 ty (length bs) ns out0) = 0
       \<and> res_type (get_req_multi m a1 ty (length bs) ns out0) = Some ty
       \<and> res_size (get_req_multi m a1 ty (length bs) ns out0) = ns
       \<and> res_data (get_req_multi m a1 ty (length bs) ns out0) = out2"
      unfolding get_req_multi_def Let_def av using False lt ninb rd r1 rd2 r2 wrap by simp
    with o2' show ?thesis by simp
  qed
qed

lemma req_type_char_inj: "req_type_char t = req_type_char t' \<Longrightarrow> t = t'"
  by (cases t; cases t'; simp)

text \<open>
  Claim C1.  Take a ring whose area is a multiple of eight bytes long and smaller than
  \<open>2 ^ 32\<close>, a writer's descriptor \<open>W\<close> with its write pointer on a block boundary,
  and a reader's descriptor \<open>R\<close> over the same area that has drained the ring: nothing
  counted in its \<open>inbuffer\<close>, and both its pointers where the writer will write.  If
  \<open>memipc_add_req\<close> accepts a request of any type \<open>t\<close> and payload \<open>d\<close>, then one
  call of \<open>memipc_get_req\<close> by the reader, with a capacity of at least the payload
  length, returns \<open>0\<close>, stores the type of the request, the payload length and, at
  \<open>req_data\<close>, the payload byte for byte.  Distinct types have distinct type bytes.
\<close>

theorem ring_round_trip:
  assumes put: "memipc_add_req wpid m W t d = Some (0, m', W')"
    and ok: "area_ok W"
    and al: "8 dvd size_area W" "8 dvd (wptr W - area W)"
    and small: "size_area W < 2 ^ 32"
    and R: "area R = area W" "size_area R = size_area W" "rptr R = wptr W" "wptr R = wptr W"
      "inbuffer R = 0" "reader R = rpid"
    and cap: "int (length d) \<le> cap" "cap < 2 ^ 63"
  shows "res_ret (memipc_get_req rpid m' R cap out) = 0
       \<and> res_type (memipc_get_req rpid m' R cap out) = Some (req_type_char t)
       \<and> res_size (memipc_get_req rpid m' R cap out) = int (length d)
       \<and> map (res_data (memipc_get_req rpid m' R cap out)) [0..<length d] = d
       \<and> (\<forall>t'. req_type_char t' = req_type_char t \<longrightarrow> t' = t)"
proof -
  define p where "p = wptr W"
  define a where "a = area W"
  define sz where "sz = size_area W"
  define B1 where "B1 = (a + sz - p) div 8"
  define bs where "bs = msg_bytes t d"
  define bc where "bc = blocks_for (length d + 5)"
  have lbs: "length bs = length d + 5" by (simp add: bs_def)
  from ok have pr: "a \<le> p" "p < a + sz" by (simp_all add: area_ok_def p_def a_def sz_def)
  have dv: "8 dvd (a + sz - p)"
  proof -
    have e: "a + sz - p = sz - (p - a)" using pr by simp
    have "8 dvd sz - (p - a)"
      using al unfolding p_def a_def sz_def by (rule dvd_diff_nat)
    then show ?thesis unfolding e .
  qed
  then have B1al: "B1 * 8 = a + sz - p" by (simp add: B1_def)
  have B1pos: "1 \<le> B1"
  proof -
    have "0 < a + sz - p" using pr by simp
    with B1al show ?thesis by (cases B1) auto
  qed
  note L = put_layout [OF put ok, folded p_def a_def sz_def bc_def bs_def, folded B1_def]
  have bcsz: "bc * 8 \<le> sz" by (rule L(1))
  have bcpos: "1 \<le> bc" using blocks_for_pos [of "length d"] by (simp add: bc_def HEADER_SIZE_def)
  have cover: "length d + 5 \<le> bc * 7" unfolding bc_def by (rule blocks_for_bounds(2))
  have tot: "length d + 5 < 2 ^ 32"
  proof -
    have "bc * 7 \<le> bc * 8" by simp
    with cover bcsz small show ?thesis by (simp add: sz_def)
  qed
  have front: "block_holds m' (p + i * 8) (grp bs i)" if "i < bc" "i < B1" for i
    using L(2) [of i] L(3) [of i] that by (cases "bc \<le> B1") auto
  have rear: "block_holds m' (a + i * 8) (grp bs (B1 + i))" if "B1 < bc" "i < bc - B1" for i
    using L(4) [of i] that by simp
  have front_bit: "m' (p + x) AND 1 = 1" if "x < min bc B1 * 8" for x
  proof -
    have "x div 8 < min bc B1" using that by (simp add: less_mult_imp_div_less)
    then have "block_holds m' (p + (x div 8) * 8) (grp bs (x div 8))" by (intro front) auto
    from block_holds_ready [OF this, of "x mod 8"] show ?thesis by (simp add: add.assoc)
  qed
  have rear_bit: "m' (a + x) AND 1 = 1" if "B1 < bc" "x < (bc - B1) * 8" for x
  proof -
    have "x div 8 < bc - B1" using that by (simp add: less_mult_imp_div_less)
    then have "block_holds m' (a + (x div 8) * 8) (grp bs (B1 + x div 8))"
      using that by (intro rear) auto
    from block_holds_ready [OF this, of "x mod 8"] show ?thesis by (simp add: add.assoc)
  qed
  let ?R1 = "get_req_refresh m' R"
  have inb: "bc * 8 \<le> inbuffer ?R1"
  proof (cases "bc \<le> B1")
    case True
    have "get_req_scan m' a (a + sz) sz p 0
          = get_req_scan m' a (a + sz) sz (if a + sz \<le> p + bc * 8 then a else p + bc * 8) (0 + bc * 8)"
    proof (rule get_req_scan_run)
      show "\<And>x. x < bc * 8 \<Longrightarrow> m' (p + x) AND 1 = 1" using front_bit True by (simp add: min_def)
      have "bc * 8 \<le> B1 * 8" using True by simp
      then show "p + bc * 8 \<le> a + sz" using B1al pr by simp
      show "0 + bc * 8 \<le> sz" using bcsz by simp
      show "0 < bc * 8" using bcpos by simp
    qed
    then have "bc * 8 \<le> snd (get_req_scan m' a (a + sz) sz p 0)"
      using get_req_scan_mono [of "bc * 8" m' a "a + sz" sz] by simp
    then show ?thesis
      by (auto simp add: get_req_refresh_def R p_def a_def sz_def split: prod.splits)
  next
    case False
    then have lt: "B1 < bc" by simp
    have s1: "get_req_scan m' a (a + sz) sz p 0
          = get_req_scan m' a (a + sz) sz (if a + sz \<le> p + B1 * 8 then a else p + B1 * 8) (0 + B1 * 8)"
    proof (rule get_req_scan_run)
      show "\<And>x. x < B1 * 8 \<Longrightarrow> m' (p + x) AND 1 = 1" using front_bit lt by (simp add: min_def)
      show "p + B1 * 8 \<le> a + sz" using B1al pr by simp
      have "B1 * 8 \<le> bc * 8" using lt by simp
      then show "0 + B1 * 8 \<le> sz" using bcsz by simp
      show "0 < B1 * 8" using B1pos by simp
    qed
    have e1: "a + sz \<le> p + B1 * 8" using B1al pr by simp
    have split: "B1 * 8 + (bc - B1) * 8 = bc * 8" using lt by (simp add: algebra_simps)
    have s2: "get_req_scan m' a (a + sz) sz a (B1 * 8)
          = get_req_scan m' a (a + sz) sz
              (if a + sz \<le> a + (bc - B1) * 8 then a else a + (bc - B1) * 8) (B1 * 8 + (bc - B1) * 8)"
    proof (rule get_req_scan_run)
      show "\<And>x. x < (bc - B1) * 8 \<Longrightarrow> m' (a + x) AND 1 = 1" using rear_bit lt by simp
      show "a + (bc - B1) * 8 \<le> a + sz" using split bcsz by simp
      show "B1 * 8 + (bc - B1) * 8 \<le> sz" using split bcsz by simp
      show "0 < (bc - B1) * 8" using lt by simp
    qed
    have "bc * 8 \<le> snd (get_req_scan m' a (a + sz) sz p 0)"
      unfolding s1 using e1 s2 split
        get_req_scan_mono [of "bc * 8" m' a "a + sz" sz]
      by simp
    then show ?thesis
      by (auto simp add: get_req_refresh_def R p_def a_def sz_def split: prod.splits)
  qed
  have R1: "area (get_req_refresh m' R) = a" "size_area (get_req_refresh m' R) = sz"
    "rptr (get_req_refresh m' R) = p"
    by (simp_all add: R a_def sz_def p_def)
  have g: "memipc_get_req rpid m' R cap out = get_req_body m' ?R1 cap out"
    by (simp add: memipc_get_req_def R)
  have h0: "block_holds m' p (grp (msg_bytes t d) 0)"
    using front [of 0] bcpos B1pos by (simp add: bs_def)
  let ?out0 = "out(1 := grp bs 0 6, 0 := grp bs 0 5)"
  have hd: "read_decode_bytes_with_header out 0 m' p (SEVEN - HEADER_SIZE) 0 0
            = (0, ?out0, req_type_char t, size_word d)"
    using read_header_ok [OF h0, of out 0 0] by (simp add: SEVEN_def HEADER_SIZE_def bs_def)
  have un: "unat (size_word d) = length bs" using unat_size_word [OF tot] lbs by simp
  have nb: "\<not> inbuffer ?R1 < EIGHT" using inb bcpos by (simp add: EIGHT_def)
  have capok: "\<not> nat ((cap + int HEADER_SIZE) mod 2 ^ 64) < length bs"
  proof -
    have "0 \<le> cap + 5" using cap(1) by simp
    moreover have "cap + 5 < 2 ^ 64" using cap(2) by simp
    ultimately have "(cap + 5) mod 2 ^ 64 = cap + 5" by (rule mod_pos_pos_trivial)
    then show ?thesis using cap(1) lbs by (simp add: HEADER_SIZE_def)
  qed
  have ns: "int (length bs) - int HEADER_SIZE = int (length d)" by (simp add: lbs HEADER_SIZE_def)
  have body: "get_req_body m' ?R1 cap out
      = (if length bs \<le> SEVEN
         then get_req_single m' ?R1 (req_type_char t) (int (length d)) ?out0
         else get_req_multi m' ?R1 (req_type_char t) (length bs) (int (length d)) ?out0)"
    unfolding get_req_body_def R1 hd using nb capok
    by (simp add: Let_def un ns)
  have out0: "?out0 q = d ! q" if "q < length d" "q + 5 < 7" for q
  proof -
    from that have "q = 0 \<or> q = 1" by arith
    then show ?thesis using that by (auto simp add: bs_def grp_header)
  qed
  have data: "res_ret (get_req_body m' ?R1 cap out) = 0
       \<and> res_type (get_req_body m' ?R1 cap out) = Some (req_type_char t)
       \<and> res_size (get_req_body m' ?R1 cap out) = int (length d)
       \<and> (\<forall>q<length d. res_data (get_req_body m' ?R1 cap out) q = d ! q)"
  proof (cases "length bs \<le> SEVEN")
    case True
    then have "\<And>q. q < length d \<Longrightarrow> q + 5 < 7" using lbs by (simp add: SEVEN_def)
    with True out0 show ?thesis unfolding body by (simp add: get_req_single_def Let_def)
  next
    case False
    then have big: "7 < length bs" by (simp add: SEVEN_def)
    have M: "res_ret (get_req_multi m' ?R1 (req_type_char t) (length bs) (int (length d)) ?out0) = 0
       \<and> res_type (get_req_multi m' ?R1 (req_type_char t) (length bs) (int (length d)) ?out0)
           = Some (req_type_char t)
       \<and> res_size (get_req_multi m' ?R1 (req_type_char t) (length bs) (int (length d)) ?out0)
           = int (length d)
       \<and> (\<forall>q. res_data (get_req_multi m' ?R1 (req_type_char t) (length bs) (int (length d)) ?out0) q
              = (if 7 \<le> q + 5 \<and> q + 5 < length bs then bs ! (q + 5) else ?out0 q))"
    proof (rule get_req_multi_ok [where ?B1.0 = B1])
      show "7 < length bs" by (rule big)
      show "B1 = (area ?R1 + size_area ?R1 - rptr ?R1) div 8" unfolding R1 by (simp add: B1_def)
      show "B1 * 8 = area ?R1 + size_area ?R1 - rptr ?R1" unfolding R1 by (simp add: B1al)
      show "1 \<le> B1" by (rule B1pos)
      show "blocks_for (length bs) * 8 \<le> inbuffer ?R1" using inb by (simp add: lbs bc_def)
      show "\<And>i. i < blocks_for (length bs) \<Longrightarrow> i < B1
               \<Longrightarrow> block_holds m' (rptr ?R1 + i * 8) (grp bs i)"
        unfolding R1 using front by (simp add: lbs bc_def)
      show "\<And>i. B1 < blocks_for (length bs) \<Longrightarrow> i < blocks_for (length bs) - B1
               \<Longrightarrow> block_holds m' (area ?R1 + i * 8) (grp bs (B1 + i))"
        unfolding R1 using rear by (simp add: lbs bc_def)
    qed
    have "res_data (get_req_multi m' ?R1 (req_type_char t) (length bs) (int (length d)) ?out0) q
            = d ! q" if q: "q < length d" for q
    proof (cases "7 \<le> q + 5")
      case True
      then have "bs ! (q + 5) = d ! q"
        by (simp add: bs_def msg_bytes_def nth_append)
      with M True q lbs show ?thesis by simp
    next
      case False
      with M q out0 [of q] show ?thesis by simp
    qed
    with M False show ?thesis unfolding body by simp
  qed
  have "map (res_data (get_req_body m' ?R1 cap out)) [0..<length d] = d"
    using data by (intro nth_equalityI) simp_all
  with data req_type_char_inj show ?thesis unfolding g by blast
qed
theorem ring_round_trip_witness:
  "res_ret (memipc_get_req 2 put_mem ring32w 100 zero_mem) = 0
   \<and> res_type (memipc_get_req 2 put_mem ring32w 100 zero_mem) = Some (req_type_char MEMIPC_REQ_PRINT)
   \<and> res_size (memipc_get_req 2 put_mem ring32w 100 zero_mem) = 16
   \<and> map (res_data (memipc_get_req 2 put_mem ring32w 100 zero_mem)) [0..<16] = payload16"
proof -
  have s: "map_option fst (memipc_add_req 1 zero_mem ring32w MEMIPC_REQ_PRINT payload16) = Some 0"
    by code_simp
  then obtain m1 a1 where
    p: "memipc_add_req 1 zero_mem ring32w MEMIPC_REQ_PRINT payload16 = Some (0, m1, a1)"
    by (cases "memipc_add_req 1 zero_mem ring32w MEMIPC_REQ_PRINT payload16") auto
  then have m1: "m1 = put_mem" by (simp add: put_mem_def)
  have ok: "area_ok ring32w" by (simp add: area_ok_def ring32w_def)
  have al: "8 dvd size_area ring32w" "8 dvd (wptr ring32w - area ring32w)"
    by (simp_all add: ring32w_def)
  have small: "size_area ring32w < 2 ^ 32" by (simp add: ring32w_def)
  have R: "area ring32w = area ring32w" "size_area ring32w = size_area ring32w"
    "rptr ring32w = wptr ring32w" "wptr ring32w = wptr ring32w" "inbuffer ring32w = 0"
    "reader ring32w = 2"
    by (simp_all add: ring32w_def)
  have cap: "int (length payload16) \<le> 100" "(100::int) < 2 ^ 63"
    by (simp_all add: payload16_def)
  have len: "length payload16 = 16" by (simp add: payload16_def)
  from ring_round_trip [OF p ok al small R cap, of zero_mem] show ?thesis
    unfolding m1 len by simp
qed

section \<open>Properties of the manager's state machine\<close>

lemma write_encode_bytes_returns: "sz \<le> 7 \<Longrightarrow> write_encode_bytes m dst src sz \<noteq> None"
  by (simp add: write_encode_bytes_def)

lemma write_encode_bytes_with_header_returns:
  "sz \<le> 2 \<Longrightarrow> write_encode_bytes_with_header m dst src sz t ms \<noteq> None"
  by (simp add: write_encode_bytes_with_header_def)

lemma add_req_block_returns:
  "add_req_block m dst t d (k * 7 + 7 - 5) \<noteq> None"
proof (cases "k = 0")
  case True
  then show ?thesis
    by (simp add: add_req_block_def Let_def SEVEN_def write_encode_bytes_with_header_def)
next
  case False
  then have "7 \<le> k * 7 + 7 - 5" by simp
  then show ?thesis
    by (auto simp add: add_req_block_def Let_def SEVEN_def write_encode_bytes_def)
qed

lemma add_req_write_returns: "add_req_write base skip t d n m tr \<noteq> None"
proof (induction n arbitrary: m tr)
  case 0
  show ?case by simp
next
  case (Suc n)
  have e: "skip * SEVEN + Suc n * SEVEN - HEADER_SIZE = (skip + n) * 7 + 7 - 5"
    by (simp add: SEVEN_def HEADER_SIZE_def add_mult_distrib)
  show ?case
    using add_req_block_returns [of m "base + n * EIGHT" t d "skip + n"] Suc.IH
    unfolding add_req_write.simps Let_def e
    by (auto split: option.splits)
qed

lemma memipc_add_req_trace_returns: "memipc_add_req_trace me m a t d \<noteq> None"
  unfolding memipc_add_req_trace_def Let_def
  by (auto simp: add_req_write_returns split: option.splits)

lemma memipc_add_req_returns: "memipc_add_req me m a t d \<noteq> None"
  using memipc_add_req_trace_returns [of me m a t d] by (simp add: memipc_add_req_def)

lemma send_req_state [simp]: "state (snd (send_req me th req)) = state th"
  by (auto simp: send_req_def split: option.splits)

lemma send_req_frame [simp]:
  "cpu (snd (send_req me th req)) = cpu th"
  "isol_exit_time (snd (send_req me th req)) = isol_exit_time th"
  "exit_request (snd (send_req me th req)) = exit_request th"
  by (auto simp: send_req_def split: option.splits)

lemma exit_request_step_state [simp]:
  "state (fst (exit_request_step me th)) = state th"
  "isol_exit_time (fst (exit_request_step me th)) = isol_exit_time th"
  "cpu (fst (exit_request_step me th)) = cpu th"
  unfolding exit_request_step_def
  by (cases "send_req me th MEMIPC_REQ_TERMINATE"; use send_req_state [of me th MEMIPC_REQ_TERMINATE]
      send_req_frame [of me th MEMIPC_REQ_TERMINATE] in auto)+

lemma exit_request_step_sent:
  "set (snd (exit_request_step me th)) \<subseteq> {MEMIPC_REQ_TERMINATE}"
  by (auto simp: exit_request_step_def split: prod.splits if_splits)
lemma state_step_to_running:
  assumes "state_step me tc rc ts th = (th', sent, flag)"
    and "(state th' = MEMIPC_STATE_RUNNING \<and> state th \<noteq> MEMIPC_STATE_RUNNING)
         \<or> MEMIPC_REQ_START_CONFIRMED \<in> set sent"
  shows "tc |\<inter>| rc = {||} \<and> state th = MEMIPC_STATE_LAUNCHED"
proof -
  have s: "\<And>req. state (snd (send_req me th req)) = state th" by simp
  show ?thesis
    using assms s [of MEMIPC_REQ_START_LAUNCH] s [of MEMIPC_REQ_START_CONFIRMED]
      s [of MEMIPC_REQ_EXIT_ISOLATION]
    unfolding state_step_def CPU_COUNT_def CPU_AND_def
    by (cases "state th";
        cases "send_req me th MEMIPC_REQ_START_LAUNCH";
        cases "send_req me th MEMIPC_REQ_START_CONFIRMED";
        cases "send_req me th MEMIPC_REQ_EXIT_ISOLATION")
       (auto split: if_splits)
qed

lemma thread_step_to_running:
  assumes "thread_step me tc rc ts th = (th', sent, flag)"
    and "(state th' = MEMIPC_STATE_RUNNING \<and> state th \<noteq> MEMIPC_STATE_RUNNING)
         \<or> MEMIPC_REQ_START_CONFIRMED \<in> set sent"
  shows "tc |\<inter>| rc = {||} \<and> state th = MEMIPC_STATE_LAUNCHED"
proof -
  obtain th1 sent1 where e: "exit_request_step me th = (th1, sent1)"
    by (cases "exit_request_step me th")
  obtain sent2 where st: "state_step me tc rc ts th1 = (th', sent2, flag)"
    and sent: "sent = sent1 @ sent2"
    using assms(1) e by (auto simp: thread_step_def split: prod.splits)
  have s1: "state th1 = state th" using exit_request_step_state(1) [of me th] e by simp
  have n1: "MEMIPC_REQ_START_CONFIRMED \<notin> set sent1"
    using exit_request_step_sent [of me th] e by auto
  from assms(2) sent n1 s1
  have "(state th' = MEMIPC_STATE_RUNNING \<and> state th1 \<noteq> MEMIPC_STATE_RUNNING)
         \<or> MEMIPC_REQ_START_CONFIRMED \<in> set sent2" by auto
  from state_step_to_running [OF st this] s1 show ?thesis by simp
qed

text \<open>The launch loop treats every thread on its own.\<close>

lemma launch_loop_Cons:
  "launch_loop me tc rc clock i (th # ths) =
     (fst (thread_step me tc rc (clock i) th) # fst (launch_loop me tc rc clock (i + 1) ths),
      map (\<lambda>r. (i, r)) (fst (snd (thread_step me tc rc (clock i) th)))
        @ fst (snd (launch_loop me tc rc clock (i + 1) ths)),
      snd (snd (thread_step me tc rc (clock i) th))
        \<or> snd (snd (launch_loop me tc rc clock (i + 1) ths)))"
  by (simp split: prod.splits)

lemma launch_loop_length:
  "length (fst (launch_loop me tc rc clock i ths)) = length ths"
  by (induction ths arbitrary: i) (simp_all add: launch_loop_Cons del: launch_loop.simps(2))

lemma launch_loop_nth:
  "k < length ths \<Longrightarrow>
     fst (launch_loop me tc rc clock i ths) ! k = fst (thread_step me tc rc (clock (i + k)) (ths ! k))"
proof (induction ths arbitrary: i k)
  case Nil
  then show ?case by simp
next
  case (Cons th ths)
  show ?case
  proof (cases k)
    case 0
    then show ?thesis by (simp add: launch_loop_Cons del: launch_loop.simps(2))
  next
    case (Suc k')
    with Cons.prems have "k' < length ths" by simp
    from Cons.IH [OF this, of "i + 1"] Suc show ?thesis
      by (simp add: launch_loop_Cons del: launch_loop.simps(2))
  qed
qed

lemma launch_loop_log:
  "(j, req) \<in> set (fst (snd (launch_loop me tc rc clock i ths))) \<longleftrightarrow>
     (\<exists>k<length ths. j = i + k
        \<and> req \<in> set (fst (snd (thread_step me tc rc (clock (i + k)) (ths ! k)))))"
proof (induction ths arbitrary: i)
  case Nil
  then show ?case by simp
next
  case (Cons th ths)
  have ex: "(\<exists>k<Suc (length ths). P k) \<longleftrightarrow> P 0 \<or> (\<exists>k<length ths. P (Suc k))" for P
    by (metis less_Suc_eq_0_disj)
  have here: "(j, req) \<in> set (map (\<lambda>r. (i, r)) (fst (snd (thread_step me tc rc (clock i) th))))
      \<longleftrightarrow> j = i \<and> req \<in> set (fst (snd (thread_step me tc rc (clock i) th)))"
    by auto
  show ?case
    unfolding launch_loop_Cons fst_conv snd_conv set_append Un_iff here Cons.IH [of "i + 1"]
      length_Cons ex
    by simp
qed
lemma process_ready_launch_threads:
  "threads (lr_manager (memipc_isolation_process_ready_launch mg tc ts_gate clock ts_last ts_scan))
     = (if launch_loop_reached mg ts_gate
        then fst (launch_loop (memipc_my_pid mg) tc (running_cpuset mg) clock 0 (threads mg))
        else threads mg)"
  by (simp add: memipc_isolation_process_ready_launch_def split: prod.splits)

lemma process_ready_launch_log:
  "lr_log (memipc_isolation_process_ready_launch mg tc ts_gate clock ts_last ts_scan)
     = (if launch_loop_reached mg ts_gate
        then fst (snd (launch_loop (memipc_my_pid mg) tc (running_cpuset mg) clock 0 (threads mg)))
        else [])"
  by (simp add: memipc_isolation_process_ready_launch_def split: prod.splits)

text \<open>
  Claim C3.  In one call of \<open>memipc_isolation_process_ready_launch\<close> with the timer set
  \<open>tc\<close>, a worker that becomes \<open>Running\<close>, or to which \<open>StartConfirmed\<close> is enqueued,
  was \<open>Launched\<close> before, and no CPU is both in \<open>tc\<close> and in the running set.
\<close>

theorem confirm_only_without_timers:
  assumes "i < length (threads mg)"
    and "(state (threads (lr_manager
             (memipc_isolation_process_ready_launch mg tc ts_gate clock ts_last ts_scan)) ! i)
            = MEMIPC_STATE_RUNNING
          \<and> state (threads mg ! i) \<noteq> MEMIPC_STATE_RUNNING)
         \<or> (i, MEMIPC_REQ_START_CONFIRMED)
             \<in> set (lr_log (memipc_isolation_process_ready_launch mg tc ts_gate clock ts_last ts_scan))"
  shows "tc |\<inter>| running_cpuset mg = {||} \<and> state (threads mg ! i) = MEMIPC_STATE_LAUNCHED"
proof (cases "launch_loop_reached mg ts_gate")
  case False
  with assms(2) show ?thesis
    by (simp add: process_ready_launch_threads process_ready_launch_log)
next
  case True
  let ?st = "thread_step (memipc_my_pid mg) tc (running_cpuset mg) (clock i) (threads mg ! i)"
  have n: "threads (lr_manager
             (memipc_isolation_process_ready_launch mg tc ts_gate clock ts_last ts_scan)) ! i
           = fst ?st"
    using True assms(1) launch_loop_nth [of i "threads mg" "memipc_my_pid mg" tc "running_cpuset mg" clock 0]
    by (simp add: process_ready_launch_threads)
  have l: "(i, MEMIPC_REQ_START_CONFIRMED)
             \<in> set (lr_log (memipc_isolation_process_ready_launch mg tc ts_gate clock ts_last ts_scan))
           \<longleftrightarrow> MEMIPC_REQ_START_CONFIRMED \<in> set (fst (snd ?st))"
    using True assms(1)
      launch_loop_log [of i MEMIPC_REQ_START_CONFIRMED "memipc_my_pid mg" tc "running_cpuset mg" clock 0
        "threads mg"]
    by (auto simp add: process_ready_launch_log)
  have "?st = (fst ?st, fst (snd ?st), snd (snd ?st))" by simp
  from thread_step_to_running [OF this] assms(2) show ?thesis unfolding n l by blast
qed
theorem confirm_only_without_timers_witness:
  "state (threads (lr_manager (memipc_isolation_process_ready_launch
       (manager_of (worker_in MEMIPC_STATE_LAUNCHED 0)) {||} 0 (clock_at 0) 0 0)) ! 0)
     = MEMIPC_STATE_RUNNING
   \<and> {||} |\<inter>| running_cpuset (manager_of (worker_in MEMIPC_STATE_LAUNCHED 0)) = {||}
   \<and> state (threads (manager_of (worker_in MEMIPC_STATE_LAUNCHED 0)) ! 0) = MEMIPC_STATE_LAUNCHED"
proof -
  have i: "0 < length (threads (manager_of (worker_in MEMIPC_STATE_LAUNCHED 0)))"
    by (simp add: manager_of_def)
  have r: "state (threads (lr_manager (memipc_isolation_process_ready_launch
       (manager_of (worker_in MEMIPC_STATE_LAUNCHED 0)) {||} 0 (clock_at 0) 0 0)) ! 0)
     = MEMIPC_STATE_RUNNING"
    by code_simp
  have b: "state (threads (manager_of (worker_in MEMIPC_STATE_LAUNCHED 0)) ! 0)
             \<noteq> MEMIPC_STATE_RUNNING"
    by (simp add: manager_of_def worker_in_def)
  from confirm_only_without_timers [OF i, of "{||}" 0 "clock_at 0" 0 0] r b
  show ?thesis by simp
qed
lemma state_step_tmp_exiting:
  assumes "state th = MEMIPC_STATE_TMP_EXITING_ISOLATION"
  shows "state_step me tc rc ts th =
     (if ts - isol_exit_time th > global_isolated_threads_restart_delay then
        (if fst (send_req me th MEMIPC_REQ_START_LAUNCH) = 0
         then (snd (send_req me th MEMIPC_REQ_START_LAUNCH)\<lparr>state := MEMIPC_STATE_LAUNCHING\<rparr>,
               [MEMIPC_REQ_START_LAUNCH], False)
         else (snd (send_req me th MEMIPC_REQ_START_LAUNCH), [], False))
      else (th, [], False))"
  using assms by (simp add: state_step_def split: prod.splits)

lemma thread_step_tmp_exiting:
  assumes "state th = MEMIPC_STATE_TMP_EXITING_ISOLATION"
  shows "(ts - isol_exit_time th > global_isolated_threads_restart_delay
          \<and> fst (send_req me (fst (exit_request_step me th)) MEMIPC_REQ_START_LAUNCH) = 0 \<longrightarrow>
            state (fst (thread_step me tc rc ts th)) = MEMIPC_STATE_LAUNCHING
            \<and> MEMIPC_REQ_START_LAUNCH \<in> set (fst (snd (thread_step me tc rc ts th))))
       \<and> (ts - isol_exit_time th \<le> global_isolated_threads_restart_delay
          \<or> fst (send_req me (fst (exit_request_step me th)) MEMIPC_REQ_START_LAUNCH) \<noteq> 0 \<longrightarrow>
            state (fst (thread_step me tc rc ts th)) = MEMIPC_STATE_TMP_EXITING_ISOLATION
            \<and> MEMIPC_REQ_START_LAUNCH \<notin> set (fst (snd (thread_step me tc rc ts th))))"
proof -
  define th1 where "th1 = fst (exit_request_step me th)"
  have s1: "state th1 = MEMIPC_STATE_TMP_EXITING_ISOLATION"
    and t1: "isol_exit_time th1 = isol_exit_time th"
    using assms(1) by (simp_all add: th1_def)
  have n1: "MEMIPC_REQ_START_LAUNCH \<notin> set (snd (exit_request_step me th))"
    using exit_request_step_sent [of me th] by auto
  have ts: "thread_step me tc rc ts th =
      (fst (state_step me tc rc ts th1),
       snd (exit_request_step me th) @ fst (snd (state_step me tc rc ts th1)),
       snd (snd (state_step me tc rc ts th1)))"
    by (simp add: thread_step_def th1_def split: prod.splits)
  show ?thesis
    unfolding ts state_step_tmp_exiting [OF s1] t1 th1_def [symmetric] using n1 s1 by auto
qed

text \<open>
  Claim C7, as amended.  For a worker in \<open>TmpExitingIsolation\<close>, one call of
  \<open>memipc_isolation_process_ready_launch\<close> enqueues \<open>StartLaunch\<close> to it and moves it to
  \<open>Launching\<close> when the call reaches its launch loop, the whole seconds of the monotonic
  clock since the recorded isolation-exit time exceed the restart delay of 3, and the
  worker's ring takes the request.  In every other case (the loop not reached, the
  difference at most 3, or the ring not taking the request) the worker stays in
  \<open>TmpExitingIsolation\<close> and no \<open>StartLaunch\<close> is enqueued to it.
\<close>

theorem relaunch_after_restart_delay:
  assumes "i < length (threads mg)"
    and "state (threads mg ! i) = MEMIPC_STATE_TMP_EXITING_ISOLATION"
  shows "(launch_loop_reached mg ts_gate
          \<and> clock i - isol_exit_time (threads mg ! i) > 3
          \<and> fst (send_req (memipc_my_pid mg) (fst (exit_request_step (memipc_my_pid mg) (threads mg ! i)))
                 MEMIPC_REQ_START_LAUNCH) = 0 \<longrightarrow>
            state (threads (lr_manager
               (memipc_isolation_process_ready_launch mg tc ts_gate clock ts_last ts_scan)) ! i)
              = MEMIPC_STATE_LAUNCHING
            \<and> (i, MEMIPC_REQ_START_LAUNCH)
                \<in> set (lr_log (memipc_isolation_process_ready_launch mg tc ts_gate clock ts_last ts_scan)))
       \<and> (\<not> launch_loop_reached mg ts_gate
          \<or> clock i - isol_exit_time (threads mg ! i) \<le> 3
          \<or> fst (send_req (memipc_my_pid mg) (fst (exit_request_step (memipc_my_pid mg) (threads mg ! i)))
                 MEMIPC_REQ_START_LAUNCH) \<noteq> 0 \<longrightarrow>
            state (threads (lr_manager
               (memipc_isolation_process_ready_launch mg tc ts_gate clock ts_last ts_scan)) ! i)
              = MEMIPC_STATE_TMP_EXITING_ISOLATION
            \<and> (i, MEMIPC_REQ_START_LAUNCH)
                \<notin> set (lr_log (memipc_isolation_process_ready_launch mg tc ts_gate clock ts_last ts_scan)))"
proof (cases "launch_loop_reached mg ts_gate")
  case False
  with assms(2) show ?thesis
    by (simp add: process_ready_launch_threads process_ready_launch_log)
next
  case True
  let ?st = "thread_step (memipc_my_pid mg) tc (running_cpuset mg) (clock i) (threads mg ! i)"
  have n: "threads (lr_manager
             (memipc_isolation_process_ready_launch mg tc ts_gate clock ts_last ts_scan)) ! i
           = fst ?st"
    using True assms(1) launch_loop_nth [of i "threads mg" "memipc_my_pid mg" tc "running_cpuset mg" clock 0]
    by (simp add: process_ready_launch_threads)
  have l: "(i, MEMIPC_REQ_START_LAUNCH)
             \<in> set (lr_log (memipc_isolation_process_ready_launch mg tc ts_gate clock ts_last ts_scan))
           \<longleftrightarrow> MEMIPC_REQ_START_LAUNCH \<in> set (fst (snd ?st))"
    using True assms(1)
      launch_loop_log [of i MEMIPC_REQ_START_LAUNCH "memipc_my_pid mg" tc "running_cpuset mg" clock 0
        "threads mg"]
    by (auto simp add: process_ready_launch_log)
  from thread_step_tmp_exiting [OF assms(2), of "clock i" "memipc_my_pid mg" tc "running_cpuset mg"] True
  show ?thesis unfolding n l global_isolated_threads_restart_delay_def by blast
qed

theorem relaunch_after_restart_delay_witness:
  "state (threads (lr_manager (memipc_isolation_process_ready_launch
       (manager_of (worker_in MEMIPC_STATE_TMP_EXITING_ISOLATION 100)) {||} 0 (clock_at 104) 0 0)) ! 0)
     = MEMIPC_STATE_LAUNCHING
   \<and> (0, MEMIPC_REQ_START_LAUNCH)
       \<in> set (lr_log (memipc_isolation_process_ready_launch
           (manager_of (worker_in MEMIPC_STATE_TMP_EXITING_ISOLATION 100)) {||} 0 (clock_at 104) 0 0))
   \<and> state (threads (lr_manager (memipc_isolation_process_ready_launch
       (manager_of (worker_in MEMIPC_STATE_TMP_EXITING_ISOLATION 100)) {||} 0 (clock_at 102) 0 0)) ! 0)
     = MEMIPC_STATE_TMP_EXITING_ISOLATION"
proof -
  let ?mg = "manager_of (worker_in MEMIPC_STATE_TMP_EXITING_ISOLATION 100)"
  have i: "0 < length (threads ?mg)" by (simp add: manager_of_def)
  have s: "state (threads ?mg ! 0) = MEMIPC_STATE_TMP_EXITING_ISOLATION"
    by (simp add: manager_of_def worker_in_def)
  have g: "launch_loop_reached ?mg 0" by code_simp
  have e4: "clock_at 104 0 - isol_exit_time (threads ?mg ! 0) > 3"
    by (simp add: manager_of_def worker_in_def clock_at_def)
  have e2: "clock_at 102 0 - isol_exit_time (threads ?mg ! 0) \<le> 3"
    by (simp add: manager_of_def worker_in_def clock_at_def)
  have a: "fst (send_req (memipc_my_pid ?mg) (fst (exit_request_step (memipc_my_pid ?mg) (threads ?mg ! 0)))
                 MEMIPC_REQ_START_LAUNCH) = 0"
    by code_simp
  from relaunch_after_restart_delay [OF i s, of 0 "clock_at 104" "{||}" 0 0] g e4 a
    relaunch_after_restart_delay [OF i s, of 0 "clock_at 102" "{||}" 0 0] e2
  show ?thesis by blast
qed

theorem relaunch_at_restart_delay_counterexample:
  "clock_at 103 0 - isol_exit_time (worker_in MEMIPC_STATE_TMP_EXITING_ISOLATION 100)
     = global_isolated_threads_restart_delay
   \<and> launch_loop_reached (manager_of (worker_in MEMIPC_STATE_TMP_EXITING_ISOLATION 100)) 0
   \<and> state (threads (lr_manager (memipc_isolation_process_ready_launch
       (manager_of (worker_in MEMIPC_STATE_TMP_EXITING_ISOLATION 100)) {||} 0 (clock_at 103) 0 0)) ! 0)
     = MEMIPC_STATE_TMP_EXITING_ISOLATION
   \<and> lr_log (memipc_isolation_process_ready_launch
       (manager_of (worker_in MEMIPC_STATE_TMP_EXITING_ISOLATION 100)) {||} 0 (clock_at 103) 0 0) = []"
  by code_simp


section \<open>Properties of the sweeper\<close>

lemma CPU_XOR_overlap:
  "CPU_XOR s (CPU_AND s t) = s |-| t"
  unfolding CPU_XOR_def CPU_AND_def by auto

lemma push_away_entry_rule:
  "push_away_entry getpid isol nonisol e = rebinding_rule getpid isol nonisol e"
proof -
  have x: "CPU_XOR (cpus_allowed e) (CPU_AND (cpus_allowed e) isol) = cpus_allowed e |-| isol"
    by (rule CPU_XOR_overlap)
  have c: "CPU_COUNT (CPU_AND (cpus_allowed e) isol) \<noteq> 0 \<longleftrightarrow> cpus_allowed e |\<inter>| isol \<noteq> {||}"
    unfolding CPU_COUNT_def CPU_AND_def by (simp add: fcard_0_eq)
  have d: "CPU_COUNT (cpus_allowed e |-| isol) = 0 \<longleftrightarrow> cpus_allowed e |-| isol = {||}"
    unfolding CPU_COUNT_def by (simp add: fcard_0_eq)
  have o: "cpus_allowed e |-| isol = {||} \<Longrightarrow> CPU_OR (cpus_allowed e |-| isol) nonisol = nonisol"
    unfolding CPU_OR_def by (simp only: funion_fempty_left)
  show ?thesis
    unfolding push_away_entry_def rebinding_rule_def Let_def x c d
    using o by (auto simp: CPU_COUNT_def)
qed

lemma push_away_loop_rule:
  "push_away_loop getpid isol nonisol proctable
     = List.map_filter (rebinding_rule getpid isol nonisol) proctable"
  by (induction proctable)
    (simp_all add: List.map_filter_simps push_away_entry_rule split: option.splits)

lemma rebinding_rule_single:
  "fcard (cpus_allowed e) \<le> 1 \<Longrightarrow> rebinding_rule getpid isol nonisol e = None"
  unfolding rebinding_rule_def by simp

text \<open>
  Claim C9.  In a pass with the push-away bit set in the command, the affinity calls of the
  sweeper are, in the order of the table, exactly the calls the rule prescribes for the
  entries that it selects: an entry is rebound if and only if it is attached to no worker,
  is not a thread other than the main one of the manager's own process, has more than one
  CPU in its mask and the mask meets the isolation set; its new mask is the old one minus
  the isolation set, or the non-isolation set when that difference is empty.  An entry whose
  mask has at most one CPU gets no call.
\<close>

theorem push_away_follows_rule:
  assumes "cmd AND ISOL_PROC_LIST_CMD_PUSH_AWAY \<noteq> 0"
  shows "process_all_threads_push_away cmd getpid isol nonisol proctable
           = List.map_filter (rebinding_rule getpid isol nonisol) proctable
         \<and> (\<forall>e. push_away_entry getpid isol nonisol e
                   = rebinding_rule getpid isol nonisol e)
         \<and> (\<forall>e. fcard (cpus_allowed e) \<le> 1
                 \<longrightarrow> push_away_entry getpid isol nonisol e = None)"
  using assms
  by (simp add: process_all_threads_push_away_def push_away_loop_rule push_away_entry_rule
      rebinding_rule_single)

theorem push_away_follows_rule_witness:
  "(3 :: 32 word) AND ISOL_PROC_LIST_CMD_PUSH_AWAY \<noteq> 0
   \<and> process_all_threads_push_away 3 100 (fset_of_list [2, 3]) (fset_of_list [0, 1]) sweep_table
       = [(100, fset_of_list [0, 1]), (200, fset_of_list [0, 1])]
   \<and> List.map_filter (rebinding_rule 100 (fset_of_list [2, 3]) (fset_of_list [0, 1])) sweep_table
       = [(100, fset_of_list [0, 1]), (200, fset_of_list [0, 1])]
   \<and> push_away_entry 100 (fset_of_list [2, 3]) (fset_of_list [0, 1]) (entity 300 300 None [2])
       = None"
proof -
  have b: "(3 :: 32 word) AND ISOL_PROC_LIST_CMD_PUSH_AWAY \<noteq> 0"
    by (simp add: ISOL_PROC_LIST_CMD_PUSH_AWAY_def)
  have r: "List.map_filter (rebinding_rule 100 (fset_of_list [2, 3]) (fset_of_list [0, 1])) sweep_table
       = [(100, fset_of_list [0, 1]), (200, fset_of_list [0, 1])]"
    by code_simp
  have s: "fcard (cpus_allowed (entity 300 300 None [2])) \<le> 1"
    by code_simp
  from push_away_follows_rule [OF b, of 100 "fset_of_list [2, 3]" "fset_of_list [0, 1]" sweep_table]
    b r s show ?thesis by auto
qed


section \<open>Properties of the text protocol\<close>

lemma strchr_None:
  "strchr s c = None \<longleftrightarrow> c \<notin> set s"
proof (cases "dropWhile (\<lambda>x. x \<noteq> c) s")
  case Nil
  then have "c \<notin> set s" by (auto simp: dropWhile_eq_Nil_conv)
  then show ?thesis unfolding strchr_def Nil by simp
next
  case (Cons x xs)
  then have "dropWhile (\<lambda>x. x \<noteq> c) s \<noteq> []" by simp
  then have "c \<in> set s" by (auto simp: dropWhile_eq_Nil_conv)
  then show ?thesis unfolding strchr_def Cons by simp
qed

lemma strchr_Some_set:
  assumes "strchr s c = Some r"
  shows "set r \<subseteq> set s"
proof -
  from assms have "r = dropWhile (\<lambda>x. x \<noteq> c) s"
    unfolding strchr_def by (simp split: list.splits)
  then show ?thesis
    by (auto dest: set_dropWhileD)
qed

lemma command_of_newtask:
  "command_word line = ''newtask'' \<Longrightarrow> command_of line = ISOL_SRV_CMD_NEWTASK"
  unfolding command_of_def commands_def by simp

lemma newtask_claim_zero:
  "client_pid = 0 \<or> client_tid = 0 \<Longrightarrow> newtask_claim getpid st client_cpu client_pid client_tid = st"
  unfolding newtask_claim_def by auto

lemma newtask_parse_invalid:
  assumes "arg = None \<or> (\<exists>a. arg = Some a \<and> (CHR '','' \<notin> set a \<or> CHR ''/'' \<notin> set a))"
  shows "\<exists>client_cpu. newtask_parse arg = (True, client_cpu, 0, 0)"
proof (cases arg)
  case None
  then show ?thesis by (simp add: newtask_parse_def)
next
  case (Some a)
  with assms have a: "CHR '','' \<notin> set a \<or> CHR ''/'' \<notin> set a" by simp
  show ?thesis
  proof (cases "strchr a CHR '',''")
    case None
    with Some show ?thesis by (simp add: newtask_parse_def)
  next
    case (Some p1)
    then have "CHR '','' \<in> set a"
      using strchr_None [of a "CHR '',''"] by auto
    with a have "CHR ''/'' \<notin> set a" by simp
    with strchr_Some_set [OF Some] have "CHR ''/'' \<notin> set p1" by auto
    then have "strchr p1 CHR ''/'' = None" by (simp add: strchr_None)
    with Some \<open>arg = Some a\<close> show ?thesis by (simp add: newtask_parse_def)
  qed
qed

lemma newtask_invalid:
  assumes "arg = None \<or> (\<exists>a. arg = Some a \<and> (CHR '','' \<notin> set a \<or> CHR ''/'' \<notin> set a))"
  shows "newtask getpid st arg
           = st\<lparr>hs_client := (hs_client st)\<lparr>tx_out := tx_out (hs_client st) @ inv_response\<rparr>\<rparr>"
proof -
  from newtask_parse_invalid [OF assms] obtain client_cpu
    where "newtask_parse arg = (True, client_cpu, 0, 0)" ..
  then show ?thesis
    by (simp add: newtask_def newtask_claim_zero send_data_persist_def)
qed

lemma newtask_zero:
  assumes "arg = Some a" and "strchr a CHR '','' = Some p1" and "strchr p1 CHR ''/'' = Some p2"
    and "get_uint (tl p1) = 0 \<or> get_uint (tl p2) = 0"
  shows "newtask getpid st arg = st"
proof -
  from assms(1-3) have "newtask_parse arg = (False, get_int a, get_uint (tl p1), get_uint (tl p2))"
    by (simp add: newtask_parse_def)
  with assms(4) show ?thesis
    by (simp add: newtask_def newtask_claim_zero)
qed

text \<open>
  Claim C10.  Let the command word of a line be \<^verbatim>\<open>newtask\<close>.  If the line has no argument,
  or its argument has no comma or no slash, the handler sends the response
  \<^verbatim>\<open>500 Invalid command.\<close> and changes nothing else: no worker is claimed, no worker record
  and no task attachment changes.  If the argument has a comma and, from it on, a slash, and
  the number read after the comma or the number read after the slash is zero, the handler
  changes nothing at all: it sends nothing, claims no worker, and leaves the worker records
  and the task attachment of the session as they were.
\<close>

theorem newtask_rejected:
  assumes "command_word line = ''newtask''"
  shows "(command_arg line = None
            \<or> (\<exists>a. command_arg line = Some a \<and> (CHR '','' \<notin> set a \<or> CHR ''/'' \<notin> set a))
          \<longrightarrow> client_text_handler getpid ts st line
                = st\<lparr>hs_client := (hs_client st)
                       \<lparr>tx_out := tx_out (hs_client st) @ ''500 Invalid command.\<newline>''\<rparr>\<rparr>)
       \<and> (\<forall>a p1 p2.
             command_arg line = Some a \<and> strchr a CHR '','' = Some p1
               \<and> strchr p1 CHR ''/'' = Some p2
               \<and> (get_uint (tl p1) = 0 \<or> get_uint (tl p2) = 0)
             \<longrightarrow> client_text_handler getpid ts st line = st)"
proof -
  from command_of_newtask [OF assms]
  have h: "client_text_handler getpid ts st line = newtask getpid st (command_arg line)"
    by (simp add: client_text_handler_def)
  show ?thesis
    unfolding h using newtask_invalid [of "command_arg line" getpid st]
      newtask_zero [of "command_arg line" _ _ _ getpid st]
    by (auto simp: inv_response_def)
qed

theorem newtask_rejected_witness:
  "command_word ''newtask'' = ''newtask''
   \<and> client_text_handler 100 0 session0 ''newtask''
       = session0\<lparr>hs_client := (hs_client session0)
                    \<lparr>tx_out := tx_out (hs_client session0) @ ''500 Invalid command.\<newline>''\<rparr>\<rparr>
   \<and> client_text_handler 100 0 session0 ''newtask 1''
       = session0\<lparr>hs_client := (hs_client session0)
                    \<lparr>tx_out := tx_out (hs_client session0) @ ''500 Invalid command.\<newline>''\<rparr>\<rparr>
   \<and> client_text_handler 100 0 session0 ''newtask 1,2''
       = session0\<lparr>hs_client := (hs_client session0)
                    \<lparr>tx_out := tx_out (hs_client session0) @ ''500 Invalid command.\<newline>''\<rparr>\<rparr>
   \<and> client_text_handler 100 0 session0 ''newtask 1,0/0'' = session0
   \<and> client_text_handler 100 0 session0 ''newtask 1,5/0'' = session0"
proof -
  have w0: "command_word ''newtask'' = ''newtask''" by code_simp
  have w1: "command_word ''newtask 1'' = ''newtask''" by code_simp
  have w2: "command_word ''newtask 1,2'' = ''newtask''" by code_simp
  have w3: "command_word ''newtask 1,0/0'' = ''newtask''" by code_simp
  have w4: "command_word ''newtask 1,5/0'' = ''newtask''" by code_simp
  have a0: "command_arg ''newtask'' = None" by code_simp
  have a1: "command_arg ''newtask 1'' = Some ''1'' \<and> CHR '','' \<notin> set ''1''" by code_simp
  have a2: "command_arg ''newtask 1,2'' = Some ''1,2'' \<and> CHR ''/'' \<notin> set ''1,2''" by code_simp
  have a3: "command_arg ''newtask 1,0/0'' = Some ''1,0/0''
      \<and> strchr ''1,0/0'' CHR '','' = Some '',0/0''
      \<and> strchr '',0/0'' CHR ''/'' = Some ''/0''
      \<and> (get_uint (tl '',0/0'') = 0 \<or> get_uint (tl ''/0'') = 0)" by code_simp
  have a4: "command_arg ''newtask 1,5/0'' = Some ''1,5/0''
      \<and> strchr ''1,5/0'' CHR '','' = Some '',5/0''
      \<and> strchr '',5/0'' CHR ''/'' = Some ''/0''
      \<and> (get_uint (tl '',5/0'') = 0 \<or> get_uint (tl ''/0'') = 0)" by code_simp
  from newtask_rejected [OF w0, of 100 0 session0] a0
  have r0: "client_text_handler 100 0 session0 ''newtask''
       = session0\<lparr>hs_client := (hs_client session0)
                    \<lparr>tx_out := tx_out (hs_client session0) @ ''500 Invalid command.\<newline>''\<rparr>\<rparr>"
    by blast
  from newtask_rejected [OF w1, of 100 0 session0] a1
  have r1: "client_text_handler 100 0 session0 ''newtask 1''
       = session0\<lparr>hs_client := (hs_client session0)
                    \<lparr>tx_out := tx_out (hs_client session0) @ ''500 Invalid command.\<newline>''\<rparr>\<rparr>"
    by blast
  from newtask_rejected [OF w2, of 100 0 session0] a2
  have r2: "client_text_handler 100 0 session0 ''newtask 1,2''
       = session0\<lparr>hs_client := (hs_client session0)
                    \<lparr>tx_out := tx_out (hs_client session0) @ ''500 Invalid command.\<newline>''\<rparr>\<rparr>"
    by blast
  from newtask_rejected [OF w3, of 100 0 session0] a3
  have r3: "client_text_handler 100 0 session0 ''newtask 1,0/0'' = session0"
    by blast
  from newtask_rejected [OF w4, of 100 0 session0] a4
  have r4: "client_text_handler 100 0 session0 ''newtask 1,5/0'' = session0"
    by blast
  from w0 r0 r1 r2 r3 r4 show ?thesis by blast
qed


section \<open>Properties of the timer feed\<close>

lemma find_token_now:
  "find_token tok token_timers_list = T_TOKEN_NOW \<Longrightarrow> tok = ''now''"
  unfolding token_timers_list_def by (simp split: if_splits)

lemma find_token_cpu:
  "find_token tok token_timers_list = T_TOKEN_CPU \<Longrightarrow> tok = ''cpu:''"
  unfolding token_timers_list_def by (simp split: if_splits)

lemma find_token_tick:
  "find_token tok token_timers_list = T_TOKEN_TICK \<Longrightarrow> tok = ''Tick''"
  unfolding token_timers_list_def by (simp split: if_splits)

lemma find_token_of_now:
  "find_token ''now'' token_timers_list = T_TOKEN_NOW"
  unfolding token_timers_list_def by simp

lemma token_at_hd:
  "token_at p = c # cs \<Longrightarrow> hd p = c"
  unfolding token_at_def by (cases p) (simp_all split: if_splits)

lemma tick_dev_step_idle:
  "parser_state ps = T_PARS_START \<or> parser_state ps = T_PARS_CPU_LIST \<Longrightarrow> tick_dev_step ps = ps"
  unfolding tick_dev_step_def by auto

lemma hash_step_idle:
  "parser_state ps = T_PARS_START \<or> parser_state ps = T_PARS_CPU_LIST \<Longrightarrow> hash_step ps s = ps"
  unfolding hash_step_def by auto

lemma token_step_start:
  assumes "parser_state ps = T_PARS_START" and "token \<noteq> T_TOKEN_NOW"
  shows "token_step ps token e = ps"
  using assms unfolding token_step_def
  by (cases token) (simp_all split: option.splits)

lemma token_step_start_now:
  assumes "parser_state ps = T_PARS_START"
  shows "token_step ps T_TOKEN_NOW e =
    (case skip_word e ''at'' of
       None \<Rightarrow> ps
     | Some e1 \<Rightarrow>
         (case sscanf_lu e1 of
            None \<Rightarrow> ps
          | Some v \<Rightarrow> ps\<lparr>now_at := v, parser_state := T_PARS_CPU_LIST\<rparr>))"
  using assms unfolding token_step_def by simp

lemma token_step_cpu_list:
  assumes "parser_state ps = T_PARS_CPU_LIST" and "token \<noteq> T_TOKEN_CPU" and "token \<noteq> T_TOKEN_TICK"
  shows "token_step ps token e = ps"
  using assms unfolding token_step_def
  by (cases token) (simp_all split: option.splits)

lemma line_step_start:
  assumes s: "parser_state ps = T_PARS_START" and n: "now_line line = None"
  shows "line_step ps line = ps"
proof -
  define p where "p = skip_whitespace (c_string line)"
  show ?thesis
  proof (cases "find_token (token_at p) token_timers_list = T_TOKEN_NOW")
    case True
    then have t: "token_at p = ''now''" by (rule find_token_now)
    then have h: "hd p \<noteq> CHR ''#''" using token_at_hd [of p] by simp
    from t n have "(case skip_word (find_endtoken p) ''at'' of
          None \<Rightarrow> None | Some e \<Rightarrow> sscanf_lu e) = None"
      unfolding now_line_def line_token_def p_def by simp
    then have "token_step ps T_TOKEN_NOW (find_endtoken p) = ps"
      unfolding token_step_start_now [OF s] by (simp split: option.splits)
    with True h s show ?thesis
      unfolding line_step_def Let_def p_def [symmetric]
      by (simp add: tick_dev_step_idle)
  next
    case False
    from token_step_start [OF s False] s show ?thesis
      unfolding line_step_def Let_def p_def [symmetric]
      by (simp add: tick_dev_step_idle hash_step_idle)
  qed
qed

lemma line_step_now:
  assumes s: "parser_state ps = T_PARS_START" and n: "now_line line = Some v"
  shows "line_step ps line = ps\<lparr>now_at := v, parser_state := T_PARS_CPU_LIST\<rparr>"
proof -
  define p where "p = skip_whitespace (c_string line)"
  from n have t: "token_at p = ''now''"
    unfolding now_line_def line_token_def p_def by (simp split: if_splits)
  then have h: "hd p \<noteq> CHR ''#''" using token_at_hd [of p] by simp
  from n t have "(case skip_word (find_endtoken p) ''at'' of
        None \<Rightarrow> None | Some e \<Rightarrow> sscanf_lu e) = Some v"
    unfolding now_line_def line_token_def p_def by simp
  then have "token_step ps T_TOKEN_NOW (find_endtoken p)
      = ps\<lparr>now_at := v, parser_state := T_PARS_CPU_LIST\<rparr>"
    unfolding token_step_start_now [OF s] by (auto split: option.splits)
  with t h show ?thesis
    unfolding line_step_def Let_def p_def [symmetric]
    by (simp add: tick_dev_step_idle find_token_of_now)
qed

lemma line_step_cpu_list:
  assumes s: "parser_state ps = T_PARS_CPU_LIST"
    and c: "line_token line \<noteq> ''cpu:''" and t: "line_token line \<noteq> ''Tick''"
  shows "line_step ps line = ps"
proof -
  define p where "p = skip_whitespace (c_string line)"
  from c have c': "find_token (token_at p) token_timers_list \<noteq> T_TOKEN_CPU"
    using find_token_cpu [of "token_at p"] unfolding line_token_def p_def by blast
  from t have t': "find_token (token_at p) token_timers_list \<noteq> T_TOKEN_TICK"
    using find_token_tick [of "token_at p"] unfolding line_token_def p_def by blast
  from token_step_cpu_list [OF s c' t'] s show ?thesis
    unfolding line_step_def Let_def p_def [symmetric]
    by (simp add: tick_dev_step_idle hash_step_idle)
qed

lemma foldl_line_step_start:
  assumes "parser_state ps = T_PARS_START" and "\<forall>l\<in>set ls. now_line l = None"
  shows "foldl line_step ps ls = ps"
  using assms by (induction ls) (simp_all add: line_step_start)

lemma foldl_line_step_cpu_list:
  assumes "parser_state ps = T_PARS_CPU_LIST"
    and "\<forall>l\<in>set ls. line_token l \<noteq> ''cpu:'' \<and> line_token l \<noteq> ''Tick''"
  shows "foldl line_step ps ls = ps"
  using assms by (induction ls) (simp_all add: line_step_cpu_list)

lemma parser_init_start:
  "parser_state (parser_init ths) = T_PARS_START"
  by (simp add: parser_init_def)

lemma process_all_timers_no_now:
  assumes "\<forall>l\<in>set feed. now_line l = None"
  shows "process_all_timers (Some feed) cpuset now ths
    = \<lparr> tr_ret = 0, tr_cpuset = CPU_ZERO, tr_now = now,
        tr_threads = memipc_remove_timers_from_all_desc ths \<rparr>"
proof -
  have "foldl line_step (parser_init ths) feed = parser_init ths"
    using parser_init_start assms by (rule foldl_line_step_start)
  then show ?thesis
    unfolding process_all_timers_def by (simp add: parser_init_def)
qed

lemma process_all_timers_now_only:
  assumes f: "feed = pre @ l # post"
    and p: "\<forall>x\<in>set pre. now_line x = None"
    and n: "now_line l = Some v"
    and q: "\<forall>x\<in>set post. line_token x \<noteq> ''cpu:'' \<and> line_token x \<noteq> ''Tick''"
  shows "tr_cpuset (process_all_timers (Some feed) cpuset now ths) = CPU_ZERO
       \<and> tr_now (process_all_timers (Some feed) cpuset now ths)
           = (if v = KTIME_MAX then now else v)"
proof -
  let ?i = "parser_init ths"
  let ?j = "?i\<lparr>now_at := v, parser_state := T_PARS_CPU_LIST\<rparr>"
  have 1: "foldl line_step ?i pre = ?i"
    using parser_init_start p by (rule foldl_line_step_start)
  have 2: "line_step ?i l = ?j"
    using parser_init_start n by (rule line_step_now)
  have "parser_state ?j = T_PARS_CPU_LIST" by simp
  then have 3: "foldl line_step ?j post = ?j"
    using q by (rule foldl_line_step_cpu_list)
  have "foldl line_step ?i feed = ?j"
    unfolding f by (simp add: 1 2 3)
  then show ?thesis
    unfolding process_all_timers_def by (simp add: parser_init_def)
qed

text \<open>
  Claim C8, as amended.  When no line of the feed is a time header, that is a
  line \<^verbatim>\<open>now at N\<close>, the set of CPUs with timers that \<^verbatim>\<open>process_all_timers\<close> produces is
  empty and the variable behind its parameter \<^verbatim>\<open>now\<close> keeps the value it had before the
  call; the value \<^verbatim>\<open>KTIME_MAX\<close> stays in the local \<^verbatim>\<open>now_at\<close>.  When the first time header
  \<^verbatim>\<open>now at N\<close> is followed by no \<^verbatim>\<open>cpu:\<close> header and by no \<^verbatim>\<open>Tick\<close> line, the set is empty
  as well, and \<^verbatim>\<open>now\<close> is \<^verbatim>\<open>N\<close> (unless \<^verbatim>\<open>N\<close> is \<^verbatim>\<open>KTIME_MAX\<close>, in which case it keeps
  its value).
\<close>

theorem timer_feed_without_headers:
  "((\<forall>l\<in>set feed. now_line l = None)
      \<longrightarrow> tr_cpuset (process_all_timers (Some feed) cpuset now ths) = CPU_ZERO
        \<and> tr_now (process_all_timers (Some feed) cpuset now ths) = now)
   \<and> (\<forall>pre l v post.
         feed = pre @ l # post
           \<and> (\<forall>x\<in>set pre. now_line x = None)
           \<and> now_line l = Some v
           \<and> (\<forall>x\<in>set post. line_token x \<noteq> ''cpu:'' \<and> line_token x \<noteq> ''Tick'')
         \<longrightarrow> tr_cpuset (process_all_timers (Some feed) cpuset now ths) = CPU_ZERO
           \<and> tr_now (process_all_timers (Some feed) cpuset now ths)
               = (if v = KTIME_MAX then now else v))"
  using process_all_timers_no_now [of feed cpuset now ths]
    process_all_timers_now_only [of feed _ _ _ _ cpuset now ths]
  by auto

theorem timer_feed_without_headers_witness:
  "tr_cpuset (process_all_timers (Some headless_feed) {|7|} 5 [free_worker]) = CPU_ZERO
   \<and> tr_now (process_all_timers (Some headless_feed) {|7|} 5 [free_worker]) = 5
   \<and> tr_cpuset (process_all_timers (Some now_only_feed) {|7|} 5 [free_worker]) = CPU_ZERO
   \<and> tr_now (process_all_timers (Some now_only_feed) {|7|} 5 [free_worker]) = 100"
proof -
  have h1: "\<forall>l\<in>set headless_feed. now_line l = None"
    by code_simp
  have s: "now_only_feed = [''Timer List Version: v0.8\<newline>''] @ ''now at 100 nsecs\<newline>'' # [''\<newline>'']"
    by (simp add: now_only_feed_def)
  have p: "\<forall>x\<in>set [''Timer List Version: v0.8\<newline>'']. now_line x = None"
    by code_simp
  have n: "now_line ''now at 100 nsecs\<newline>'' = Some 100"
    by code_simp
  have q: "\<forall>x\<in>set [''\<newline>'']. line_token x \<noteq> ''cpu:'' \<and> line_token x \<noteq> ''Tick''"
    by code_simp
  have k: "(100 :: s64) \<noteq> KTIME_MAX"
    by (simp add: KTIME_MAX_def)
  from timer_feed_without_headers [of headless_feed "{|7|}" 5 "[free_worker]"] h1
  have r1: "tr_cpuset (process_all_timers (Some headless_feed) {|7|} 5 [free_worker]) = CPU_ZERO
      \<and> tr_now (process_all_timers (Some headless_feed) {|7|} 5 [free_worker]) = 5"
    by blast
  from timer_feed_without_headers [of now_only_feed "{|7|}" 5 "[free_worker]"]
  have "\<forall>pre l v post.
         now_only_feed = pre @ l # post
           \<and> (\<forall>x\<in>set pre. now_line x = None)
           \<and> now_line l = Some v
           \<and> (\<forall>x\<in>set post. line_token x \<noteq> ''cpu:'' \<and> line_token x \<noteq> ''Tick'')
         \<longrightarrow> tr_cpuset (process_all_timers (Some now_only_feed) {|7|} 5 [free_worker]) = CPU_ZERO
           \<and> tr_now (process_all_timers (Some now_only_feed) {|7|} 5 [free_worker])
               = (if v = KTIME_MAX then 5 else v)"
    by (rule conjunct2)
  from this s p n q
  have "tr_cpuset (process_all_timers (Some now_only_feed) {|7|} 5 [free_worker]) = CPU_ZERO
      \<and> tr_now (process_all_timers (Some now_only_feed) {|7|} 5 [free_worker])
          = (if (100 :: s64) = KTIME_MAX then 5 else 100)"
    by blast
  with k r1 show ?thesis by simp
qed

theorem timer_feed_without_cpu_header_counterexample:
  "no_cpu_header tick_feed
   \<and> tr_cpuset (process_all_timers (Some tick_feed) CPU_ZERO 0 [free_worker]) = {|1|}
   \<and> tr_cpuset (process_all_timers (Some tick_feed) CPU_ZERO 0 [free_worker]) \<noteq> CPU_ZERO
   \<and> tr_now (process_all_timers (Some tick_feed) CPU_ZERO 0 [free_worker]) = 100
   \<and> tr_now (process_all_timers (Some tick_feed) CPU_ZERO 0 [free_worker]) \<noteq> KTIME_MAX
   \<and> no_cpu_header []
   \<and> tr_now (process_all_timers (Some []) CPU_ZERO 0 [free_worker]) = 0
   \<and> tr_now (process_all_timers (Some []) CPU_ZERO 0 [free_worker]) \<noteq> KTIME_MAX"
  by code_simp

end
